theory Spec2Isabelle
  imports Complex_Main "HOL-Library.Log_Nat"
begin

section \<open>ECMAScript time values and calendar arithmetic\<close>

text \<open>
  A JavaScript \<open>Date\<close> holds a time value: the milliseconds since 1970-01-01T00:00Z.
  The components read and write dates through \<open>getDay\<close>, \<open>getDate\<close>,
  \<open>getFullYear\<close>, \<open>setDate\<close>, \<open>setFullYear\<close> and \<open>getTime\<close>; these are the
  abstract operations of ECMA-262 (section "Date Objects"), transcribed below with the
  names the standard gives them. Only valid dates are modelled: an Invalid Date (time
  value NaN) and the clipping of time values beyond 8.64e15 ms are outside the model.
\<close>

type_synonym date = int

definition msPerDay :: int where
  "msPerDay = 86400000"

definition msPerHour :: int where
  "msPerHour = 3600000"

definition msPerMinute :: int where
  "msPerMinute = 60000"

definition Day :: "int \<Rightarrow> int" where
  "Day t = t div msPerDay"

definition TimeWithinDay :: "int \<Rightarrow> int" where
  "TimeWithinDay t = t mod msPerDay"

definition DayFromYear :: "int \<Rightarrow> int" where
  "DayFromYear y =
     365 * (y - 1970) + (y - 1969) div 4 - (y - 1901) div 100 + (y - 1601) div 400"

definition LeapYear :: "int \<Rightarrow> bool" where
  "LeapYear y =
     (if y mod 4 \<noteq> 0 then False
      else if y mod 100 \<noteq> 0 then True
      else if y mod 400 \<noteq> 0 then False
      else True)"

definition DaysInYear :: "int \<Rightarrow> int" where
  "DaysInYear y = (if LeapYear y then 366 else 365)"

text \<open>
  \<open>YearFromTime t\<close> is the largest year \<open>y\<close> with \<open>TimeFromYear y \<le> t\<close>. It is
  computed from the mean length of a Gregorian year (146097 days in 400 years), which is
  off by at most one year, and then corrected; \<open>YearFromDay_bounds\<close> below shows that the
  result is the year the standard asks for.
\<close>

definition YearFromDay :: "int \<Rightarrow> int" where
  "YearFromDay d =
     (let y = 1970 + (400 * d) div 146097
      in if DayFromYear (y + 1) \<le> d then y + 1
         else if DayFromYear y \<le> d then y
         else y - 1)"

definition YearFromTime :: "int \<Rightarrow> int" where
  "YearFromTime t = YearFromDay (Day t)"

definition InLeapYear :: "int \<Rightarrow> int" where
  "InLeapYear t = (if LeapYear (YearFromTime t) then 1 else 0)"

definition DayWithinYear :: "int \<Rightarrow> int" where
  "DayWithinYear t = Day t - DayFromYear (YearFromTime t)"

definition MonthFromTime :: "int \<Rightarrow> int" where
  "MonthFromTime t =
     (let d = DayWithinYear t; l = InLeapYear t
      in if d < 31 then 0
         else if d < 59 + l then 1
         else if d < 90 + l then 2
         else if d < 120 + l then 3
         else if d < 151 + l then 4
         else if d < 181 + l then 5
         else if d < 212 + l then 6
         else if d < 243 + l then 7
         else if d < 273 + l then 8
         else if d < 304 + l then 9
         else if d < 334 + l then 10
         else 11)"

text \<open>The day within its year on which month \<open>m\<close> (0 = January) begins.\<close>

definition monthStart :: "int \<Rightarrow> int \<Rightarrow> int" where
  "monthStart m l =
     (if m = 0 then 0
      else if m = 1 then 31
      else if m = 2 then 59 + l
      else if m = 3 then 90 + l
      else if m = 4 then 120 + l
      else if m = 5 then 151 + l
      else if m = 6 then 181 + l
      else if m = 7 then 212 + l
      else if m = 8 then 243 + l
      else if m = 9 then 273 + l
      else if m = 10 then 304 + l
      else 334 + l)"

definition DateFromTime :: "int \<Rightarrow> int" where
  "DateFromTime t = DayWithinYear t - monthStart (MonthFromTime t) (InLeapYear t) + 1"

definition WeekDay :: "int \<Rightarrow> int" where
  "WeekDay t = (Day t + 4) mod 7"

definition MakeDay :: "int \<Rightarrow> int \<Rightarrow> int \<Rightarrow> int" where
  "MakeDay year month dt =
     (let ym = year + month div 12; mn = month mod 12
      in DayFromYear ym + monthStart mn (if LeapYear ym then 1 else 0) + dt - 1)"

definition MakeTime :: "int \<Rightarrow> int \<Rightarrow> int \<Rightarrow> int \<Rightarrow> int" where
  "MakeTime h m s ms = h * msPerHour + m * msPerMinute + s * 1000 + ms"

definition MakeDate :: "int \<Rightarrow> int \<Rightarrow> int" where
  "MakeDate day time = day * msPerDay + time"

subsection \<open>Local time\<close>

text \<open>
  The local-time methods depend on the time zone of the host. A zone is given by the two
  readings of the standard's \<open>LocalTZA\<close>: the offset in force at a UTC instant, and the
  offset used to interpret a local wall-clock reading (at a reading that a transition
  skips or repeats, the offset before the transition).
\<close>

record zone =
  offsetAtUTC :: "int \<Rightarrow> int"
  offsetAtLocal :: "int \<Rightarrow> int"

definition LocalTime :: "zone \<Rightarrow> date \<Rightarrow> int" where
  "LocalTime z t = t + offsetAtUTC z t"

definition UTC :: "zone \<Rightarrow> int \<Rightarrow> date" where
  "UTC z lt = lt - offsetAtLocal z lt"

text \<open>A zone whose offset never changes (UTC is \<open>fixedZone 0\<close>).\<close>

definition fixedZone :: "int \<Rightarrow> zone" where
  "fixedZone off = \<lparr> offsetAtUTC = (\<lambda>t. off), offsetAtLocal = (\<lambda>lt. off) \<rparr>"

text \<open>
  America/New_York (the zone of Providence, RI) as it is from 2023-11-05 to 2025-03-09:
  UTC-5, and UTC-4 from 2024-03-10 02:00 EST (07:00Z) to 2024-11-03 02:00 EDT (06:00Z).
  The local readings 02:00-03:00 of March 10 do not exist and are read with the offset
  before the transition; 01:00-02:00 of November 3 occur twice and are read as the first.
\<close>

definition newYork :: zone where
  "newYork = \<lparr>
     offsetAtUTC = (\<lambda>t. if 1710054000000 \<le> t \<and> t < 1730613600000
                         then - 4 * msPerHour else - 5 * msPerHour),
     offsetAtLocal = (\<lambda>lt. if 1710039600000 \<le> lt \<and> lt < 1730599200000
                            then - 4 * msPerHour else - 5 * msPerHour) \<rparr>"

definition getDay :: "zone \<Rightarrow> date \<Rightarrow> int" where
  "getDay z t = WeekDay (LocalTime z t)"

definition getDate :: "zone \<Rightarrow> date \<Rightarrow> int" where
  "getDate z t = DateFromTime (LocalTime z t)"

definition getFullYear :: "zone \<Rightarrow> date \<Rightarrow> int" where
  "getFullYear z t = YearFromTime (LocalTime z t)"

definition setDate :: "zone \<Rightarrow> date \<Rightarrow> int \<Rightarrow> date" where
  "setDate z t dt =
     (let lt = LocalTime z t
      in UTC z (MakeDate (MakeDay (YearFromTime lt) (MonthFromTime lt) dt) (TimeWithinDay lt)))"

definition setFullYear :: "zone \<Rightarrow> date \<Rightarrow> int \<Rightarrow> date" where
  "setFullYear z t y =
     (let lt = LocalTime z t
      in UTC z (MakeDate (MakeDay y (MonthFromTime lt) (DateFromTime lt)) (TimeWithinDay lt)))"

text \<open>\<open>new Date(year, month, date, hours, minutes)\<close>: a local wall-clock reading.\<close>

definition newDate :: "zone \<Rightarrow> int \<Rightarrow> int \<Rightarrow> int \<Rightarrow> int \<Rightarrow> int \<Rightarrow> date" where
  "newDate z y m d hh mm = UTC z (MakeDate (MakeDay y m d) (MakeTime hh mm 0 0))"

text \<open>\<open>Date.UTC(year, month, date, hours, minutes)\<close>: the same reading taken as UTC.\<close>

definition DateUTC :: "int \<Rightarrow> int \<Rightarrow> int \<Rightarrow> int \<Rightarrow> int \<Rightarrow> date" where
  "DateUTC y m d hh mm = MakeDate (MakeDay y m d) (MakeTime hh mm 0 0)"

section \<open>CalendarHeatmap: the date range and the week grid\<close>

text \<open>
  \<open>startDate\<close>: the \<open>startDate\<close> property if given, else January 1 of the current year
  (\<open>now\<close> is the clock reading of \<open>new Date()\<close>).
\<close>

definition startDate :: "zone \<Rightarrow> date \<Rightarrow> date option \<Rightarrow> date" where
  "startDate z now propStartDate =
     (case propStartDate of
        Some d \<Rightarrow> d
      | None \<Rightarrow> newDate z (getFullYear z now) 0 1 0 0)"

text \<open>\<open>endDate\<close>: one year after the start, minus one day.\<close>

definition endDate :: "zone \<Rightarrow> date \<Rightarrow> date" where
  "endDate z start =
     (let e = setFullYear z start (getFullYear z start + 1)
      in setDate z e (getDate z e - 1))"

text \<open>
  \<open>allDatesInRange\<close>: the \<open>while (currentDate <= endDate)\<close> loop, pushing a copy of
  \<open>currentDate\<close> and advancing it by \<open>setDate(getDate() + 1)\<close>. \<open>None\<close> is a loop that
  does not end.
\<close>

partial_function (option) datesLoop :: "zone \<Rightarrow> date \<Rightarrow> date \<Rightarrow> date list \<Rightarrow> date list option"
  where
  "datesLoop z currentDate end dates =
     (if currentDate \<le> end
      then datesLoop z (setDate z currentDate (getDate z currentDate + 1)) end
             (dates @ [currentDate])
      else Some dates)"

declare datesLoop.simps [code]

definition allDatesInRange :: "zone \<Rightarrow> date \<Rightarrow> date \<Rightarrow> date list option" where
  "allDatesInRange z start end = datesLoop z start end []"

text \<open>
  \<open>firstSunday\<close>: from the start date, \<open>setDate(getDate() - 1)\<close> until \<open>getDay()\<close> is 0.
\<close>

partial_function (option) firstSundayLoop :: "zone \<Rightarrow> date \<Rightarrow> date option" where
  "firstSundayLoop z d =
     (if getDay z d \<noteq> 0 then firstSundayLoop z (setDate z d (getDate z d - 1))
      else Some d)"

declare firstSundayLoop.simps [code]

definition firstSunday :: "zone \<Rightarrow> date \<Rightarrow> date option" where
  "firstSunday z start = firstSundayLoop z start"

definition getWeekNumber :: "date \<Rightarrow> date \<Rightarrow> int" where
  "getWeekNumber sunday d =
     (let daysSinceStart = (d - sunday) div (24 * 60 * 60 * 1000)
      in daysSinceStart div 7)"

definition visibleDates :: "date list \<Rightarrow> date \<Rightarrow> date \<Rightarrow> date list" where
  "visibleDates dates start end = filter (\<lambda>d. d \<ge> start \<and> d \<le> end) dates"

text \<open>
  The grid position of a day cell: the week column (\<open>x / fullCellSize\<close>) and the weekday
  row (\<open>y / fullCellSize\<close>) of its rectangle.
\<close>

definition cell :: "zone \<Rightarrow> date \<Rightarrow> date \<Rightarrow> int \<times> int" where
  "cell z sunday d = (getWeekNumber sunday d, getDay z d)"

text \<open>The cells \<open>drawHeatmap\<close> draws for a start date and an end date.\<close>

definition dayCells :: "zone \<Rightarrow> date \<Rightarrow> date \<Rightarrow> (date \<times> int \<times> int) list option" where
  "dayCells z start end =
     (case firstSunday z start of
        None \<Rightarrow> None
      | Some sunday \<Rightarrow>
          (case allDatesInRange z start end of
             None \<Rightarrow> None
           | Some dates \<Rightarrow>
               Some (map (\<lambda>d. (d, cell z sunday d)) (visibleDates dates start end))))"

section \<open>JavaScript numbers and the d3 scales\<close>

text \<open>
  Pixel coordinates and sample values are JavaScript numbers, modelled as reals. The one
  non-finite value that the scale code can produce, \<open>NaN\<close>, is a value of its own, apart
  from the finite numbers. The scales are given twice: first with exact arithmetic, then
  (in the subsection on double precision) with every operation rounded to the nearest
  IEEE 754 double.
\<close>

datatype jsnum = Num real | NaN

text \<open>
  \<open>d3.extent(values)\<close>: the running minimum and maximum, \<open>[undefined, undefined]\<close> for
  no values; a scale's \<open>domain\<close> coerces both to numbers, \<open>undefined\<close> to \<open>NaN\<close>.
\<close>

fun extent :: "real list \<Rightarrow> jsnum \<times> jsnum" where
  "extent [] = (NaN, NaN)"
| "extent (v # vs) =
     (Num (fold (\<lambda>x m. if m > x then x else m) vs v),
      Num (fold (\<lambda>x m. if m < x then x else m) vs v))"

text \<open>\<open>d3.max(values)\<close> and \<open>d3.min(values)\<close>: \<open>None\<close> is \<open>undefined\<close>.\<close>

fun d3max :: "real list \<Rightarrow> real option" where
  "d3max [] = None"
| "d3max (v # vs) = Some (fold (\<lambda>x m. if m < x then x else m) vs v)"

fun d3min :: "real list \<Rightarrow> real option" where
  "d3min [] = None"
| "d3min (v # vs) = Some (fold (\<lambda>x m. if m > x then x else m) vs v)"

text \<open>\<open>v || 0\<close> for an optional number: \<open>undefined\<close> and \<open>0\<close> are falsy.\<close>

definition orZero :: "real option \<Rightarrow> real" where
  "orZero v = (case v of None \<Rightarrow> 0 | Some x \<Rightarrow> if x = 0 then 0 else x)"

text \<open>
  d3-scale's continuous scale with a two-point domain and range and no clamping.
  \<open>normalize(a, b)\<close> is \<open>(b -= a) ? x => (x - a) / b : constant(isNaN(b) ? NaN : 0.5)\<close>:
  a domain of width zero maps everything to one half instead of dividing.
\<close>

fun normalize_d3 :: "jsnum \<Rightarrow> jsnum \<Rightarrow> jsnum \<Rightarrow> jsnum" where
  "normalize_d3 (Num a) (Num b) (Num x) =
     (if b - a \<noteq> 0 then Num ((x - a) / (b - a)) else Num (1 / 2))"
| "normalize_d3 (Num a) (Num b) NaN = (if b - a \<noteq> 0 then NaN else Num (1 / 2))"
| "normalize_d3 a b x = NaN"

text \<open>\<open>interpolateNumber(a, b)\<close> is \<open>t => a * (1 - t) + b * t\<close>.\<close>

fun interpolateNumber :: "jsnum \<Rightarrow> jsnum \<Rightarrow> jsnum \<Rightarrow> jsnum" where
  "interpolateNumber (Num a) (Num b) (Num t) = Num (a * (1 - t) + b * t)"
| "interpolateNumber a b t = NaN"

fun jsless :: "jsnum \<Rightarrow> jsnum \<Rightarrow> bool" where
  "jsless (Num a) (Num b) = (a < b)"
| "jsless a b = False"

definition bimap :: "jsnum \<times> jsnum \<Rightarrow> jsnum \<times> jsnum \<Rightarrow> jsnum \<Rightarrow> jsnum" where
  "bimap dmn rng x =
     (let d0 = fst dmn; d1 = snd dmn; r0 = fst rng; r1 = snd rng
      in if jsless d1 d0 then interpolateNumber r1 r0 (normalize_d3 d1 d0 x)
         else interpolateNumber r0 r1 (normalize_d3 d0 d1 x))"

record scale =
  domain :: "jsnum \<times> jsnum"
  range_px :: "jsnum \<times> jsnum"

definition scale_apply :: "scale \<Rightarrow> real \<Rightarrow> jsnum" where
  "scale_apply sc x = bimap (domain sc) (range_px sc) (Num x)"

definition scale_invert :: "scale \<Rightarrow> real \<Rightarrow> jsnum" where
  "scale_invert sc y = bimap (range_px sc) (domain sc) (Num y)"

text \<open>
  A time scale's \<open>invert\<close> wraps the number in \<open>new Date(...)\<close>, which truncates it to
  whole milliseconds; \<open>None\<close> is the Invalid Date of a \<open>NaN\<close>. \<open>time_invert\<close> computes
  the number exactly; \<open>time_invert64\<close>, further down, computes it in doubles, where the
  two can differ by a millisecond.
\<close>

definition toDate :: "jsnum \<Rightarrow> date option" where
  "toDate v = (case v of NaN \<Rightarrow> None
               | Num r \<Rightarrow> Some (if r < 0 then \<lceil>r\<rceil> else \<lfloor>r\<rfloor>))"

definition time_invert :: "scale \<Rightarrow> real \<Rightarrow> date option" where
  "time_invert sc y = toDate (scale_invert sc y)"

text \<open>
  \<open>d3.bisector(accessor).left(a, x)\<close> of d3-array: the insertion point by binary search,
  and \<open>hi\<close> at once when \<open>x\<close> does not compare equal to itself (an Invalid Date, which
  the component meets only on an empty series, where \<open>lo < hi\<close> fails first).
\<close>

function bisectLoop :: "('a \<Rightarrow> int) \<Rightarrow> 'a list \<Rightarrow> int \<Rightarrow> nat \<Rightarrow> nat \<Rightarrow> nat" where
  "bisectLoop f a x lo hi =
     (if lo < hi
      then (let mid = (lo + hi) div 2
            in if f (a ! mid) < x then bisectLoop f a x (mid + 1) hi
               else bisectLoop f a x lo mid)
      else lo)"
  by pat_completeness auto
termination
  by (relation "measure (\<lambda>(f, a, x, lo, hi). hi - lo)") auto

declare bisectLoop.simps [simp del]

definition bisectLeft :: "('a \<Rightarrow> int) \<Rightarrow> 'a list \<Rightarrow> date option \<Rightarrow> nat" where
  "bisectLeft f a x =
     (let lo = 0; hi = length a
      in if lo < hi
         then (case x of None \<Rightarrow> hi | Some v \<Rightarrow> bisectLoop f a v lo hi)
         else lo)"

subsection \<open>The scales in double precision\<close>

text \<open>
  A JavaScript number is an IEEE 754 binary64 value, and each arithmetic operation
  returns the exact result rounded to the nearest such value, a tie going to the even
  significand. \<open>binary64 x\<close> is that rounding of the real \<open>x\<close>: with \<open>e = exponent x\<close>,
  the integer for which \<open>2^e \<le> |x| < 2^(e+1)\<close>, the doubles around \<open>x\<close> are the
  multiples of \<open>2^(e-52)\<close>, and below \<open>2^(-1022)\<close> (the subnormal range) the multiples
  of \<open>2^(-1074)\<close>. Overflow to \<open>Infinity\<close>, above \<open>1.8e308\<close>, is left out.
\<close>

definition roundTiesToEven :: "real \<Rightarrow> int" where
  "roundTiesToEven y =
     (let n = \<lfloor>y\<rfloor>
      in if y - of_int n < 1 / 2 then n
         else if 1 / 2 < y - of_int n then n + 1
         else if even n then n else n + 1)"

definition exponent :: "real \<Rightarrow> int" where
  "exponent x =
     (if 1 \<le> \<bar>x\<bar> then bitlen \<lfloor>\<bar>x\<bar>\<rfloor> - 1
      else - int (ceillog2 (nat \<lceil>1 / \<bar>x\<bar>\<rceil>)))"

definition binary64 :: "real \<Rightarrow> real" where
  "binary64 x =
     (if x = 0 then 0
      else (let e = max (exponent x) (- 1022);
                q = 2 powi (e - 52)
            in q * of_int (roundTiesToEven (x / q))))"


text \<open>
  \<open>normalize\<close>, \<open>interpolateNumber\<close>, \<open>bimap\<close>, the scale and its \<open>invert\<close> as above,
  each subtraction, division, multiplication and addition rounded. The bounds of a time
  domain are whole milliseconds, at most \<open>8.64e15 < 2^53\<close> in size, and the bounds of the
  pixel range are whole pixels: doubles hold them exactly.
\<close>

fun normalize64 :: "jsnum \<Rightarrow> jsnum \<Rightarrow> jsnum \<Rightarrow> jsnum" where
  "normalize64 (Num a) (Num b) (Num x) =
     (if binary64 (b - a) \<noteq> 0
      then Num (binary64 (binary64 (x - a) / binary64 (b - a))) else Num (1 / 2))"
| "normalize64 (Num a) (Num b) NaN = (if binary64 (b - a) \<noteq> 0 then NaN else Num (1 / 2))"
| "normalize64 a b x = NaN"

fun interpolateNumber64 :: "jsnum \<Rightarrow> jsnum \<Rightarrow> jsnum \<Rightarrow> jsnum" where
  "interpolateNumber64 (Num a) (Num b) (Num t) =
     Num (binary64 (binary64 (a * binary64 (1 - t)) + binary64 (b * t)))"
| "interpolateNumber64 a b t = NaN"

definition bimap64 :: "jsnum \<times> jsnum \<Rightarrow> jsnum \<times> jsnum \<Rightarrow> jsnum \<Rightarrow> jsnum" where
  "bimap64 dmn rng x =
     (let d0 = fst dmn; d1 = snd dmn; r0 = fst rng; r1 = snd rng
      in if jsless d1 d0 then interpolateNumber64 r1 r0 (normalize64 d1 d0 x)
         else interpolateNumber64 r0 r1 (normalize64 d0 d1 x))"

definition scale_apply64 :: "scale \<Rightarrow> real \<Rightarrow> jsnum" where
  "scale_apply64 sc x = bimap64 (domain sc) (range_px sc) (Num x)"

definition scale_invert64 :: "scale \<Rightarrow> real \<Rightarrow> jsnum" where
  "scale_invert64 sc y = bimap64 (range_px sc) (domain sc) (Num y)"

definition time_invert64 :: "scale \<Rightarrow> real \<Rightarrow> date option" where
  "time_invert64 sc y = toDate (scale_invert64 sc y)"

section \<open>TimeSeriesPlot\<close>

text \<open>
  A \<open>DataPoint\<close>. The source keeps \<open>time\<close> as a string and reads it only through
  \<open>new Date(d.time)\<close>; the field holds the time value of that date.
\<close>

record DataPoint =
  time :: date
  allocated :: real
  total_chips :: real

subsection \<open>Layout and scales of \<open>drawPlot\<close>\<close>

definition width :: "real \<Rightarrow> real" where
  "width clientWidth = max 1200 clientWidth"

definition height :: "real \<Rightarrow> real" where
  "height clientWidth = width clientWidth * (9 / 16)"

definition margin_top :: real where "margin_top = 40"
definition margin_right :: real where "margin_right = 40"
definition margin_bottom :: real where "margin_bottom = 40"
definition margin_left :: real where "margin_left = 60"

definition innerWidth :: "real \<Rightarrow> real" where
  "innerWidth clientWidth = width clientWidth - margin_left - margin_right"

definition innerHeight :: "real \<Rightarrow> real" where
  "innerHeight clientWidth = height clientWidth - margin_top - margin_bottom"

text \<open>\<open>x = d3.scaleTime().domain(d3.extent(data, d => new Date(d.time))).range([0, innerWidth])\<close>\<close>

definition xScale :: "DataPoint list \<Rightarrow> real \<Rightarrow> scale" where
  "xScale data clientWidth =
     \<lparr> domain = extent (map (\<lambda>d. of_int (time d)) data),
       range_px = (Num 0, Num (innerWidth clientWidth)) \<rparr>"

text \<open>\<open>y = d3.scaleLinear().domain([0, d3.max(data, d => d.total) || 0]).range([innerHeight, 0])\<close>\<close>

definition yScale :: "DataPoint list \<Rightarrow> real \<Rightarrow> scale" where
  "yScale data clientWidth =
     \<lparr> domain = (Num 0, Num (orZero (d3max (map total_chips data)))),
       range_px = (Num (innerHeight clientWidth), Num 0) \<rparr>"

subsection \<open>The \<open>mousemove\<close> handler of the line\<close>

definition tooltipHeight :: real where "tooltipHeight = 80"
definition tooltipWidth :: real where "tooltipWidth = 150"
definition padding :: real where "padding = 10"

text \<open>The \<open>left\<close> and \<open>top\<close> style of the tooltip for a pointer at \<open>(mouseX, mouseY)\<close>.\<close>

definition tooltipPosition :: "real \<Rightarrow> real \<Rightarrow> real \<Rightarrow> real \<times> real" where
  "tooltipPosition clientWidth mouseX mouseY =
     (let top0 = mouseY + margin_top;
          left0 = mouseX + margin_left;
          top1 = (if top0 + tooltipHeight + padding > innerHeight clientWidth
                  then mouseY - tooltipHeight - padding + margin_top else top0);
          left1 = (if left0 + tooltipWidth + padding > innerWidth clientWidth
                   then mouseX - tooltipWidth - padding + margin_left else left0)
      in (left1, top1))"

datatype js_error = TypeError

text \<open>
  The handler inverts the pointer's x to a date, bisects the series, and reads
  \<open>data[index]\<close>; building the tooltip text from an index past the end throws (reading
  \<open>d.time\<close> of \<open>undefined\<close>) before any style is set. The result is the sample shown
  and the tooltip's position.
\<close>

definition mousemove ::
  "DataPoint list \<Rightarrow> real \<Rightarrow> real \<Rightarrow> real \<Rightarrow> js_error + (DataPoint \<times> real \<times> real)" where
  "mousemove data clientWidth mouseX mouseY =
     (let xDate = time_invert (xScale data clientWidth) mouseX;
          index = bisectLeft time data xDate
      in if index < length data
         then Inr (data ! index, tooltipPosition clientWidth mouseX mouseY)
         else Inl TypeError)"

subsection \<open>Fetching and rendering\<close>

text \<open>
  The component state of the three \<open>useState\<close> hooks; \<open>data = None\<close> is \<open>null\<close>.
\<close>

record component =
  data :: "DataPoint list option"
  loading :: bool
  error :: "string option"

definition initial :: component where
  "initial = \<lparr> data = None, loading = True, error = None \<rparr>"

text \<open>
  What the network gives back: the request is rejected (with the message of the
  \<open>Error\<close>, if it is one), or a response arrives with a status and a body text.
  \<open>JSON.parse\<close> is a parameter; of its results the model follows \<open>null\<close> and arrays of
  data points.
\<close>

datatype outcome = Rejected "string option" | Response nat string

datatype json = JNull | JArray "DataPoint list"

definition ok :: "nat \<Rightarrow> bool" where
  "ok status = (200 \<le> status \<and> status \<le> 299)"

definition digits :: string where
  "digits = ''0123456789''"

fun showNat :: "nat \<Rightarrow> string" where
  "showNat n = (if n < 10 then [digits ! n] else showNat (n div 10) @ [digits ! (n mod 10)])"

declare showNat.simps [simp del]

text \<open>The \<open>try\<close> block of \<open>fetchData\<close>: the parsed result, or the message thrown.\<close>

definition tryFetch :: "(string \<Rightarrow> json option) \<Rightarrow> outcome \<Rightarrow> string option + json" where
  "tryFetch JSON_parse out =
     (case out of
        Rejected msg \<Rightarrow> Inl msg
      | Response status rawText \<Rightarrow>
          if \<not> ok status then Inl (Some (''HTTP error! status: '' @ showNat status))
          else (case JSON_parse rawText of
                  None \<Rightarrow> Inl (Some (''Invalid JSON response: '' @ take 100 rawText @ ''...''))
                | Some result \<Rightarrow> Inr result))"

definition fetchData ::
  "(string \<Rightarrow> json option) \<Rightarrow> bool \<Rightarrow> outcome \<Rightarrow> component \<Rightarrow> component" where
  "fetchData JSON_parse isMounted out s =
     (case tryFetch JSON_parse out of
        Inr result \<Rightarrow>
          if isMounted
          then s\<lparr> data := (case result of JNull \<Rightarrow> None | JArray rows \<Rightarrow> Some rows),
                  loading := False \<rparr>
          else s
      | Inl e \<Rightarrow>
          if isMounted
          then s\<lparr> error := Some (case e of Some message \<Rightarrow> message
                                   | None \<Rightarrow> ''An error occurred''),
                  loading := False \<rparr>
          else s)"

datatype view = Loading | ErrorView string | NoDataAvailable | Chart

text \<open>The three early returns of the component; an empty string is falsy.\<close>

definition render :: "component \<Rightarrow> view" where
  "render s =
     (if loading s then Loading
      else if error s \<noteq> None \<and> error s \<noteq> Some [] then ErrorView (the (error s))
      else if data s = None then NoDataAvailable
      else Chart)"

text \<open>
  \<open>drawPlot\<close> as the effect runs it: it returns early unless the chart's elements are
  mounted (the \<open>Chart\<close> view) and \<open>data\<close> is truthy, and otherwise builds both scales.
\<close>

definition drawPlot :: "component \<Rightarrow> real \<Rightarrow> (scale \<times> scale) option" where
  "drawPlot s clientWidth =
     (if render s \<noteq> Chart then None
      else (case data s of
              None \<Rightarrow> None
            | Some rows \<Rightarrow> Some (xScale rows clientWidth, yScale rows clientWidth)))"

section \<open>CalendarHeatmap: data, colours and tooltip\<close>

datatype Chip = Cpu | Gpu

text \<open>\<open>chipStr.toUpperCase()\<close>\<close>

definition chipLabel :: "Chip \<Rightarrow> string" where
  "chipLabel chip = (if chip = Cpu then ''CPU'' else ''GPU'')"

text \<open>
  A row of the response as the heatmap reads it, and the \<open>DayData\<close> made of it:
  \<open>{ date: item.time, value: Math.round(item.allocated) }\<close>.
\<close>

record RawRow =
  row_time :: string
  row_allocated :: real

record DayData =
  date :: string
  val :: int

definition Math_round :: "real \<Rightarrow> int" where
  "Math_round x = \<lfloor>x + 1 / 2\<rfloor>"

definition processedData :: "RawRow list \<Rightarrow> DayData list" where
  "processedData rawData =
     map (\<lambda>item. \<lparr> date = row_time item, val = Math_round (row_allocated item) \<rparr>) rawData"

text \<open>\<open>s.split('T')[0]\<close>\<close>

definition splitT :: "string \<Rightarrow> string" where
  "splitT s = takeWhile (\<lambda>c. c \<noteq> CHR ''T'') s"

text \<open>
  \<open>dataMap = new Map(data.map(d => [d.date.split('T')[0], d.value]))\<close>: a later row
  replaces an earlier one with the same key.
\<close>

definition dataMap :: "DayData list \<Rightarrow> (string \<rightharpoonup> int)" where
  "dataMap rows = fold (\<lambda>d m. m(splitT (date d) \<mapsto> val d)) rows Map.empty"

text \<open>\<open>Date.prototype.toISOString\<close>, and the key \<open>d.toISOString().split('T')[0]\<close>.\<close>

definition padStart :: "nat \<Rightarrow> string \<Rightarrow> string" where
  "padStart w s = replicate (w - length s) CHR ''0'' @ s"

definition isoYear :: "int \<Rightarrow> string" where
  "isoYear y =
     (if 0 \<le> y \<and> y \<le> 9999 then padStart 4 (showNat (nat y))
      else (if y < 0 then ''-'' else ''+'') @ padStart 6 (showNat (nat \<bar>y\<bar>)))"

definition toISOString :: "date \<Rightarrow> string" where
  "toISOString t =
     isoYear (YearFromTime t) @ ''-'' @ padStart 2 (showNat (nat (MonthFromTime t + 1)))
       @ ''-'' @ padStart 2 (showNat (nat (DateFromTime t)))
       @ ''T'' @ padStart 2 (showNat (nat ((t div msPerHour) mod 24)))
       @ '':'' @ padStart 2 (showNat (nat ((t div msPerMinute) mod 60)))
       @ '':'' @ padStart 2 (showNat (nat ((t div 1000) mod 60)))
       @ ''.'' @ padStart 3 (showNat (nat (t mod 1000))) @ ''Z''"

definition dateKey :: "date \<Rightarrow> string" where
  "dateKey d = splitT (toISOString d)"

subsection \<open>The colour scale\<close>

text \<open>
  \<open>d3.interpolateBlues\<close> (d3-scale-chromatic): the uniform B-spline of d3-interpolate
  through the nine colours of the ColorBrewer scheme, printed as \<open>rgb(r, g, b)\<close>.
\<close>

definition basis :: "real \<Rightarrow> real \<Rightarrow> real \<Rightarrow> real \<Rightarrow> real \<Rightarrow> real" where
  "basis t1 v0 v1 v2 v3 =
     (let t2 = t1 * t1; t3 = t2 * t1
      in ((1 - 3 * t1 + 3 * t2 - t3) * v0 + (4 - 6 * t2 + 3 * t3) * v1
          + (1 + 3 * t1 + 3 * t2 - 3 * t3) * v2 + t3 * v3) / 6)"

definition interpolateBasis :: "real list \<Rightarrow> real \<Rightarrow> real" where
  "interpolateBasis values t =
     (let n = length values - 1;
          t' = (if t \<le> 0 then 0 else if t \<ge> 1 then 1 else t);
          i = (if t \<le> 0 then 0 else if t \<ge> 1 then n - 1 else nat \<lfloor>t * real n\<rfloor>);
          v1 = values ! i;
          v2 = values ! (i + 1);
          v0 = (if i > 0 then values ! (i - 1) else 2 * v1 - v2);
          v3 = (if i < n - 1 then values ! (i + 2) else 2 * v2 - v1)
      in basis ((t' - real i / real n) * real n) v0 v1 v2 v3)"

definition clampi :: "real \<Rightarrow> nat" where
  "clampi v = nat (max 0 (min 255 (Math_round v)))"

definition formatRgb :: "real \<Rightarrow> real \<Rightarrow> real \<Rightarrow> string" where
  "formatRgb r g b =
     ''rgb('' @ showNat (clampi r) @ '', '' @ showNat (clampi g) @ '', ''
       @ showNat (clampi b) @ '')''"

definition interpolateBlues :: "real \<Rightarrow> string" where
  "interpolateBlues t =
     formatRgb (interpolateBasis [247, 222, 198, 158, 107, 66, 33, 8, 8] t)
               (interpolateBasis [251, 235, 219, 202, 174, 146, 113, 81, 48] t)
               (interpolateBasis [255, 247, 239, 225, 214, 198, 181, 156, 107] t)"

definition minValue :: "DayData list \<Rightarrow> real" where
  "minValue rows = orZero (d3min (map (\<lambda>d. of_int (val d)) rows))"

definition maxValue :: "DayData list \<Rightarrow> real" where
  "maxValue rows = orZero (d3max (map (\<lambda>d. of_int (val d)) rows))"

text \<open>
  \<open>d3.scaleSequential().domain([x0, x1]).interpolator(d3.interpolateBlues)\<close>: the scale
  passes \<open>k10 === 0 ? 0.5 : (x - x0) * k10\<close> to the interpolator, where
  \<open>k10 = x0 === x1 ? 0 : 1 / (x1 - x0)\<close>.
\<close>

definition sequentialParameter :: "real \<Rightarrow> real \<Rightarrow> real \<Rightarrow> real" where
  "sequentialParameter x0 x1 x =
     (let k10 = (if x0 = x1 then 0 else 1 / (x1 - x0))
      in if k10 = 0 then 1 / 2 else (x - x0) * k10)"

definition colorScale :: "DayData list \<Rightarrow> real \<Rightarrow> string" where
  "colorScale rows x = interpolateBlues (sequentialParameter (minValue rows) (maxValue rows) x)"

text \<open>The \<open>fill\<close> of the cell of day \<open>d\<close>.\<close>

definition fill :: "DayData list \<Rightarrow> date \<Rightarrow> string" where
  "fill rows d =
     (case dataMap rows (dateKey d) of
        Some v \<Rightarrow> colorScale rows (of_int v)
      | None \<Rightarrow> ''#eee'')"

subsection \<open>The tooltip of a cell\<close>

definition showInt :: "int \<Rightarrow> string" where
  "showInt i = (if i < 0 then ''-'' @ showNat (nat (- i)) else showNat (nat i))"

text \<open>
  The text set by the cell's \<open>mousemove\<close> handler (the layout whitespace of the template
  left out). \<open>toLocaleDateString\<close> depends on the locale and is a parameter.
  \<open>value = dataMap.get(dateKey) || 0\<close>, then \<open>value ? Math.round(value) : "No data"\<close>.
\<close>

definition tooltipHtml :: "(date \<Rightarrow> string) \<Rightarrow> Chip \<Rightarrow> DayData list \<Rightarrow> date \<Rightarrow> string" where
  "tooltipHtml toLocaleDateString chip rows d =
     (let formattedDate = toLocaleDateString d;
          v = (case dataMap rows (dateKey d) of None \<Rightarrow> 0 | Some x \<Rightarrow> if x = 0 then 0 else x)
      in ''Date: '' @ formattedDate @ ''<br>'' @ chipLabel chip @ ''s: ''
           @ (if v \<noteq> 0 then showInt v else ''No data''))"

definition heat_tooltipWidth :: real where "heat_tooltipWidth = 150"
definition heat_tooltipHeight :: real where "heat_tooltipHeight = 60"
definition heat_padding :: real where "heat_padding = 10"

text \<open>\<open>height = Math.max(7 * fullCellSize + 50, 230)\<close> with \<open>fullCellSize = 12 + 2\<close>.\<close>

definition heat_height :: real where
  "heat_height = max (7 * (12 + 2) + 50) 230"

definition heat_tooltipPosition :: "real \<Rightarrow> real \<Rightarrow> real \<Rightarrow> real \<times> real" where
  "heat_tooltipPosition containerWidth mouseX mouseY =
     (let top0 = mouseY;
          left0 = mouseX + heat_padding;
          left1 = (if left0 + heat_tooltipWidth + heat_padding > containerWidth
                   then mouseX - heat_tooltipWidth - heat_padding else left0);
          top1 = (if top0 + heat_tooltipHeight + heat_padding > heat_height
                  then mouseY - heat_tooltipHeight - heat_padding else top0)
      in (left1, top1))"

section \<open>Scenarios\<close>

text \<open>
  The two-sample series of the specification's scenario A:
  \<open>[{time: "2024-01-01T00:00Z", allocated: 10, total: 100},
    {time: "2024-01-02T00:00Z", allocated: 20, total: 100}]\<close>.
\<close>

definition seriesA :: "DataPoint list" where
  "seriesA =
     [\<lparr> time = DateUTC 2024 0 1 0 0, allocated = 10, total_chips = 100 \<rparr>,
      \<lparr> time = DateUTC 2024 0 2 0 0, allocated = 20, total_chips = 100 \<rparr>]"

text \<open>
  Vocabulary of the specification for the grid: the days \<open>c, c + 1 day, ...\<close> (\<open>n\<close>
  of them, 24 hours apart), the whole days between two instants, and the number of
  calendar days from \<open>start\<close> to \<open>end\<close>, both included.
\<close>

definition days :: "date \<Rightarrow> nat \<Rightarrow> date list" where
  "days c n = map (\<lambda>i. c + int i * msPerDay) [0..<n]"

definition daysBetween :: "date \<Rightarrow> date \<Rightarrow> int" where
  "daysBetween start end = (end - start) div msPerDay"

definition dayCount :: "date \<Rightarrow> date \<Rightarrow> nat" where
  "dayCount start end = nat (daysBetween start end + 1)"

section \<open>Calendar arithmetic: the facts the grid rests on\<close>

lemma div_step:
  fixes x :: int
  assumes "0 < n"
  shows "(x + 1) div n = x div n + (if (x + 1) mod n = 0 then 1 else 0)"
proof -
  have r: "0 \<le> x mod n" "x mod n < n" using assms by simp_all
  have x: "x + 1 = n * (x div n) + (x mod n + 1)" by simp
  show ?thesis
  proof (cases "x mod n + 1 = n")
    case True
    then have e: "x + 1 = n * (x div n + 1) + 0" using x by (simp add: algebra_simps)
    have "(x + 1) div n = x div n + 1"
      by (rule int_div_pos_eq [OF e]) (use assms in simp_all)
    moreover have "(x + 1) mod n = 0"
      by (rule int_mod_pos_eq [OF e]) (use assms in simp_all)
    ultimately show ?thesis by simp
  next
    case False
    then have lt: "x mod n + 1 < n" using r by simp
    have "(x + 1) div n = x div n"
      by (rule int_div_pos_eq [OF x]) (use r lt in simp_all)
    moreover have "(x + 1) mod n = x mod n + 1"
      by (rule int_mod_pos_eq [OF x]) (use r lt in simp_all)
    ultimately show ?thesis using r by simp
  qed
qed

lemma div_bounds:
  fixes x :: int
  assumes "0 < n"
  shows "n * (x div n) \<le> x" and "x - (n - 1) \<le> n * (x div n)"
proof -
  have r: "0 \<le> x mod n" "x mod n < n" using assms by simp_all
  have x: "x = n * (x div n) + x mod n" by simp
  show "n * (x div n) \<le> x" using r x by linarith
  show "x - (n - 1) \<le> n * (x div n)" using r x by linarith
qed

text \<open>A year has 365 or 366 days: \<open>DayFromYear\<close> advances by \<open>DaysInYear\<close>.\<close>

lemma DayFromYear_Suc: "DayFromYear (y + 1) = DayFromYear y + DaysInYear y"
proof -
  have m4: "(y - 1968) mod 4 = y mod 4"
    using mod_mult_self1 [of y "- 492" 4] by simp
  have m100: "(y - 1900) mod 100 = y mod 100"
    using mod_mult_self1 [of y "- 19" 100] by simp
  have m400: "(y - 1600) mod 400 = y mod 400"
    using mod_mult_self1 [of y "- 4" 400] by simp
  have a: "(y - 1968) div 4 = (y - 1969) div 4 + (if y mod 4 = 0 then 1 else 0)"
    using div_step [of 4 "y - 1969"] by (simp add: m4)
  have b: "(y - 1900) div 100 = (y - 1901) div 100 + (if y mod 100 = 0 then 1 else 0)"
    using div_step [of 100 "y - 1901"] by (simp add: m100)
  have c: "(y - 1600) div 400 = (y - 1601) div 400 + (if y mod 400 = 0 then 1 else 0)"
    using div_step [of 400 "y - 1601"] by (simp add: m400)
  have d4: "y mod 400 = 0 \<Longrightarrow> y mod 100 = 0"
    using mod_mod_cancel [of 100 400 y] by simp
  have d1: "y mod 100 = 0 \<Longrightarrow> y mod 4 = 0"
    using mod_mod_cancel [of 4 100 y] by simp
  have e: "DayFromYear (y + 1) =
      365 * (y - 1969) + (y - 1968) div 4 - (y - 1900) div 100 + (y - 1600) div 400"
    by (simp add: DayFromYear_def)
  have g: "DayFromYear y =
      365 * (y - 1970) + (y - 1969) div 4 - (y - 1901) div 100 + (y - 1601) div 400"
    by (simp add: DayFromYear_def)
  have f: "DayFromYear (y + 1) = DayFromYear y + 365 + (if y mod 4 = 0 then 1 else 0)
      - (if y mod 100 = 0 then 1 else 0) + (if y mod 400 = 0 then 1 else 0)"
    unfolding e g a b c by simp
  show ?thesis
  proof (cases "y mod 4 = 0")
    case False
    then show ?thesis using d4 d1 unfolding f by (auto simp add: DaysInYear_def LeapYear_def)
  next
    case True
    then show ?thesis using d4 unfolding f by (auto simp add: DaysInYear_def LeapYear_def)
  qed
qed

lemma DayFromYear_mono: "y \<le> y' \<Longrightarrow> DayFromYear y \<le> DayFromYear y'"
proof -
  have "DayFromYear y \<le> DayFromYear (y + int n)" for n
  proof (induction n)
    case 0
    show ?case by simp
  next
    case (Suc n)
    have "DayFromYear (y + int (Suc n)) = DayFromYear (y + int n) + DaysInYear (y + int n)"
      using DayFromYear_Suc [of "y + int n"] by (simp add: ac_simps)
    then show ?case using Suc by (simp add: DaysInYear_def)
  qed
  from this [of "nat (y' - y)"] show "y \<le> y' \<Longrightarrow> DayFromYear y \<le> DayFromYear y'"
    by simp
qed

lemma DayFromYear_bounds:
  "146097 * (y - 1970) - 506 \<le> 400 * DayFromYear y"
  "400 * DayFromYear y \<le> 146097 * (y - 1970) + 589"
proof -
  define a where "a = (y - 1969) div 4"
  define b where "b = (y - 1901) div 100"
  define c where "c = (y - 1601) div 400"
  have a: "4 * a \<le> y - 1969" "y - 1969 - 3 \<le> 4 * a"
    unfolding a_def using div_bounds [of 4 "y - 1969"] by simp_all
  have b: "100 * b \<le> y - 1901" "y - 1901 - 99 \<le> 100 * b"
    unfolding b_def using div_bounds [of 100 "y - 1901"] by simp_all
  have c: "400 * c \<le> y - 1601" "y - 1601 - 399 \<le> 400 * c"
    unfolding c_def using div_bounds [of 400 "y - 1601"] by simp_all
  have d: "DayFromYear y = 365 * (y - 1970) + a - b + c"
    by (simp add: DayFromYear_def a_def b_def c_def)
  have a1: "100 * (y - 1969 - 3) \<le> 100 * (4 * a)"
    using a(2) by (rule mult_left_mono) simp
  have a2: "100 * (4 * a) \<le> 100 * (y - 1969)"
    using a(1) by (rule mult_left_mono) simp
  have b1: "4 * (100 * b) \<le> 4 * (y - 1901)"
    using b(1) by (rule mult_left_mono) simp
  have b2: "4 * (y - 1901 - 99) \<le> 4 * (100 * b)"
    using b(2) by (rule mult_left_mono) simp
  show "146097 * (y - 1970) - 506 \<le> 400 * DayFromYear y"
    unfolding d using a1 b1 c(2) by (simp add: algebra_simps)
  show "400 * DayFromYear y \<le> 146097 * (y - 1970) + 589"
    unfolding d using a2 b2 c(1) by (simp add: algebra_simps)
qed

text \<open>
  \<open>YearFromDay\<close> is the year of the standard: the largest \<open>y\<close> whose first day is not
  after \<open>d\<close>.
\<close>

lemma YearFromDay_bounds:
  "DayFromYear (YearFromDay d) \<le> d" "d < DayFromYear (YearFromDay d + 1)"
proof -
  define k where "k = (400 * d) div 146097"
  have k: "146097 * k \<le> 400 * d" "400 * d - 146096 \<le> 146097 * k"
    unfolding k_def using div_bounds [of 146097 "400 * d"] by simp_all
  have y: "YearFromDay d =
      (if DayFromYear (k + 1971) \<le> d then k + 1971
       else if DayFromYear (k + 1970) \<le> d then k + 1970 else k + 1969)"
    by (simp add: YearFromDay_def Let_def k_def add.commute)
  have "400 * DayFromYear (k + 1969) \<le> 400 * d"
    using DayFromYear_bounds(2) [of "k + 1969"] k(1) by (simp add: algebra_simps)
  then have lo: "DayFromYear (k + 1969) \<le> d" by simp
  have "400 * d < 400 * DayFromYear (k + 1972)"
    using DayFromYear_bounds(1) [of "k + 1972"] k(2) by (simp add: algebra_simps)
  then have hi: "d < DayFromYear (k + 1972)" by simp
  show "DayFromYear (YearFromDay d) \<le> d"
    unfolding y using lo by simp
  show "d < DayFromYear (YearFromDay d + 1)"
    unfolding y using hi by (simp add: add.commute)
qed

lemma YearFromDay_greatest:
  assumes "DayFromYear y \<le> d"
  shows "y \<le> YearFromDay d"
proof (rule ccontr)
  assume "\<not> y \<le> YearFromDay d"
  then have "YearFromDay d + 1 \<le> y" by simp
  then have "DayFromYear (YearFromDay d + 1) \<le> DayFromYear y" by (rule DayFromYear_mono)
  then show False using assms YearFromDay_bounds(2) [of d] by linarith
qed

text \<open>
  Setting the day of the month moves the local reading by whole days, whatever the
  month and year: \<open>setDate(getDate() + k)\<close> is the local time plus \<open>k\<close> days, read
  back in the zone.
\<close>

lemma MonthFromTime_range: "0 \<le> MonthFromTime t \<and> MonthFromTime t \<le> 11"
  by (simp add: MonthFromTime_def Let_def)

lemma MakeDay_roundtrip:
  "MakeDay (YearFromTime t) (MonthFromTime t) (DateFromTime t + k) = Day t + k"
proof -
  have m: "MonthFromTime t div 12 = 0" "MonthFromTime t mod 12 = MonthFromTime t"
    using MonthFromTime_range [of t] by simp_all
  show ?thesis
    by (simp add: MakeDay_def Let_def m DateFromTime_def DayWithinYear_def InLeapYear_def)
qed

lemma MakeDate_Day: "MakeDate (Day t + k) (TimeWithinDay t) = t + k * msPerDay"
  by (simp add: MakeDate_def Day_def TimeWithinDay_def algebra_simps)

lemma setDate_shift:
  "setDate z t (getDate z t + k) = UTC z (LocalTime z t + k * msPerDay)"
  by (simp add: setDate_def getDate_def Let_def MakeDay_roundtrip MakeDate_Day)

section \<open>TimeSeriesPlot: the pointer lookup\<close>

text \<open>
  The bisection returns the insertion point: on a series ordered by time, every sample
  before the index is earlier than \<open>x\<close> and every sample from the index on is at or
  after \<open>x\<close>.
\<close>

lemma bisectLoop_post:
  assumes "sorted (map f a)" "lo \<le> hi" "hi \<le> length a"
    and "\<forall>i<lo. f (a ! i) < x"
    and "\<forall>i. hi \<le> i \<and> i < length a \<longrightarrow> x \<le> f (a ! i)"
  shows "lo \<le> bisectLoop f a x lo hi \<and> bisectLoop f a x lo hi \<le> hi
       \<and> (\<forall>i<bisectLoop f a x lo hi. f (a ! i) < x)
       \<and> (\<forall>i. bisectLoop f a x lo hi \<le> i \<and> i < length a \<longrightarrow> x \<le> f (a ! i))"
  using assms
proof (induction f a x lo hi rule: bisectLoop.induct)
  case (1 f a x lo hi)
  show ?case
  proof (cases "lo < hi")
    case False
    then have "lo = hi" using "1.prems"(2) by simp
    then show ?thesis using "1.prems" by (subst (1 2 3 4) bisectLoop.simps) simp
  next
    case True
    define mid where "mid = (lo + hi) div 2"
    have mid: "lo \<le> mid" "mid < hi" using True by (simp_all add: mid_def)
    have mono: "\<And>i j. i \<le> j \<Longrightarrow> j < length a \<Longrightarrow> f (a ! i) \<le> f (a ! j)"
      using "1.prems"(1) sorted_nth_mono [of "map f a"] by fastforce
    show ?thesis
    proof (cases "f (a ! mid) < x")
      case lt: True
      have left: "\<forall>i<mid + 1. f (a ! i) < x"
      proof (intro allI impI)
        fix i assume "i < mid + 1"
        then have "f (a ! i) \<le> f (a ! mid)" using mono [of i mid] mid "1.prems"(3) by simp
        then show "f (a ! i) < x" using lt by simp
      qed
      have ih: "mid + 1 \<le> bisectLoop f a x (mid + 1) hi \<and> bisectLoop f a x (mid + 1) hi \<le> hi
       \<and> (\<forall>i<bisectLoop f a x (mid + 1) hi. f (a ! i) < x)
       \<and> (\<forall>i. bisectLoop f a x (mid + 1) hi \<le> i \<and> i < length a \<longrightarrow> x \<le> f (a ! i))"
        using "1.IH"(1) [OF True mid_def lt "1.prems"(1) _ "1.prems"(3) left "1.prems"(5)] mid
        by simp
      have eq: "bisectLoop f a x lo hi = bisectLoop f a x (mid + 1) hi"
        using True lt by (subst bisectLoop.simps) (simp add: mid_def Let_def)
      show ?thesis unfolding eq using ih mid by auto
    next
      case ge: False
      have right: "\<forall>i. mid \<le> i \<and> i < length a \<longrightarrow> x \<le> f (a ! i)"
      proof (intro allI impI)
        fix i assume "mid \<le> i \<and> i < length a"
        then have "f (a ! mid) \<le> f (a ! i)" using mono [of mid i] by simp
        then show "x \<le> f (a ! i)" using ge by simp
      qed
      have ih: "lo \<le> bisectLoop f a x lo mid \<and> bisectLoop f a x lo mid \<le> mid
       \<and> (\<forall>i<bisectLoop f a x lo mid. f (a ! i) < x)
       \<and> (\<forall>i. bisectLoop f a x lo mid \<le> i \<and> i < length a \<longrightarrow> x \<le> f (a ! i))"
        using "1.IH"(2) [OF True mid_def ge "1.prems"(1) _ _ "1.prems"(4) right] mid "1.prems"(3)
        by simp
      have eq: "bisectLoop f a x lo hi = bisectLoop f a x lo mid"
        using True ge by (subst bisectLoop.simps) (simp add: mid_def Let_def)
      show ?thesis unfolding eq using ih mid by auto
    qed
  qed
qed

lemma DateUTC_scenarioA:
  "DateUTC 2024 0 1 0 0 = 1704067200000"
  "DateUTC 2024 0 2 0 0 = 1704153600000"
  "DateUTC 2024 0 1 12 0 = 1704110400000"
  by (simp_all add: DateUTC_def MakeDate_def MakeDay_def MakeTime_def DayFromYear_def
      monthStart_def LeapYear_def msPerDay_def msPerHour_def msPerMinute_def)

lemma innerWidth_ge: "1100 \<le> innerWidth clientWidth"
  by (simp add: innerWidth_def width_def margin_left_def margin_right_def)

lemma time_invert_seriesA:
  "time_invert (xScale seriesA clientWidth) (innerWidth clientWidth / 2)
     = Some (DateUTC 2024 0 1 12 0)"
  using innerWidth_ge [of clientWidth]
  by (simp add: time_invert_def scale_invert_def xScale_def seriesA_def bimap_def toDate_def
      DateUTC_scenarioA)

text \<open>
  C1, as the code has it. On the series of scenario A, at the pointer position in the
  middle of the plot (for every width of the container), the scale inverts to
  2024-01-01T12:00Z, and the handler shows the sample at the bisection index 1: the
  2024-01-02 sample, the first one that is not before the inverted time.
\<close>

theorem C1_pointer_returns_sample_at_or_after:
  "time_invert (xScale seriesA clientWidth) (innerWidth clientWidth / 2)
     = Some (DateUTC 2024 0 1 12 0)
   \<and> bisectLeft time seriesA (Some (DateUTC 2024 0 1 12 0)) = 1
   \<and> mousemove seriesA clientWidth (innerWidth clientWidth / 2) mouseY
     = Inr (\<lparr> time = DateUTC 2024 0 2 0 0, allocated = 20, total_chips = 100 \<rparr>,
            tooltipPosition clientWidth (innerWidth clientWidth / 2) mouseY)"
proof -
  have b: "bisectLeft time seriesA (Some (DateUTC 2024 0 1 12 0)) = 1"
    by (simp add: bisectLeft_def seriesA_def DateUTC_scenarioA bisectLoop.simps Let_def)
  show ?thesis
    unfolding mousemove_def Let_def time_invert_seriesA b by (simp add: seriesA_def)
qed

text \<open>
  C1, as the specification states it, fails: at a container 1200 pixels wide the middle
  of the plot is x = 550, the pointer inverts to 2024-01-01T12:00Z, and the handler
  does not show the 2024-01-01 sample.
\<close>

theorem C1_counterexample:
  "time_invert (xScale seriesA 1200) 550 = Some (DateUTC 2024 0 1 12 0)
   \<and> mousemove seriesA 1200 550 100
     \<noteq> Inr (\<lparr> time = DateUTC 2024 0 1 0 0, allocated = 10, total_chips = 100 \<rparr>,
            tooltipPosition 1200 550 100)"
proof -
  have w: "innerWidth 1200 / 2 = 550"
    by (simp add: innerWidth_def width_def margin_left_def margin_right_def)
  have i: "time_invert (xScale seriesA 1200) 550 = Some (DateUTC 2024 0 1 12 0)"
    using time_invert_seriesA [of 1200] by (simp add: w)
  have b: "bisectLeft time seriesA (Some (DateUTC 2024 0 1 12 0)) = 1"
    by (simp add: bisectLeft_def seriesA_def DateUTC_scenarioA bisectLoop.simps Let_def)
  show ?thesis
    unfolding mousemove_def Let_def i b by (simp add: seriesA_def DateUTC_scenarioA)
qed

section \<open>CalendarHeatmap: the loops over days\<close>

lemma datesLoop_step:
  "datesLoop z c e acc =
     (if c \<le> e then datesLoop z (UTC z (LocalTime z c + msPerDay)) e (acc @ [c]) else Some acc)"
  using setDate_shift [of z c 1] by (subst datesLoop.simps) simp

lemma firstSundayLoop_step:
  "firstSundayLoop z d =
     (if getDay z d \<noteq> 0 then firstSundayLoop z (UTC z (LocalTime z d - msPerDay)) else Some d)"
  using setDate_shift [of z d "- 1"] by (subst firstSundayLoop.simps) simp

lemma datesLoop_days:
  assumes "\<And>i. i < n \<Longrightarrow> c + int i * msPerDay \<le> e"
    and "\<And>i. i < n \<Longrightarrow>
           UTC z (LocalTime z (c + int i * msPerDay) + msPerDay) = c + int (Suc i) * msPerDay"
  shows "datesLoop z c e acc = datesLoop z (c + int n * msPerDay) e (acc @ days c n)"
  using assms
proof (induction n)
  case 0
  show ?case by (simp add: days_def)
next
  case (Suc n)
  have "datesLoop z c e acc = datesLoop z (c + int n * msPerDay) e (acc @ days c n)"
    using Suc by simp
  also have "\<dots> = datesLoop z (c + int (Suc n) * msPerDay) e
                     ((acc @ days c n) @ [c + int n * msPerDay])"
    using Suc.prems(1) [of n] Suc.prems(2) [of n]
    by (subst datesLoop_step) simp
  finally show ?case by (simp add: days_def)
qed

lemma LocalTime_fixed: "LocalTime (fixedZone off) t = t + off"
  by (simp add: LocalTime_def fixedZone_def)

lemma UTC_fixed: "UTC (fixedZone off) lt = lt - off"
  by (simp add: UTC_def fixedZone_def)

lemma getDay_range: "0 \<le> getDay z t \<and> getDay z t < 7"
  by (simp add: getDay_def WeekDay_def)

lemma getDay_fixed_shift:
  "getDay (fixedZone off) (t + k * msPerDay) = (getDay (fixedZone off) t + k) mod 7"
proof -
  have "(t + k * msPerDay + off) div msPerDay = (t + off) div msPerDay + k"
    using div_mult_self1 [of msPerDay "t + off" k] by (simp add: msPerDay_def algebra_simps)
  then show ?thesis
    by (simp add: getDay_def WeekDay_def Day_def LocalTime_fixed mod_simps algebra_simps)
qed

lemma firstSundayLoop_fixed:
  "firstSundayLoop (fixedZone off) t = Some (t - getDay (fixedZone off) t * msPerDay)"
proof (induction "nat (getDay (fixedZone off) t)" arbitrary: t)
  case 0
  then have "getDay (fixedZone off) t = 0" using getDay_range [of "fixedZone off" t] by simp
  then show ?case by (subst firstSundayLoop_step) simp
next
  case (Suc n)
  let ?z = "fixedZone off"
  have g: "getDay ?z t = int n + 1" using Suc.hyps(2) by linarith
  have step: "UTC ?z (LocalTime ?z t - msPerDay) = t - msPerDay"
    by (simp add: LocalTime_fixed UTC_fixed)
  have g': "getDay ?z (t - msPerDay) = int n"
    using getDay_fixed_shift [of off t "- 1"] getDay_range [of ?z t] g by simp
  have "firstSundayLoop ?z (t - msPerDay)
          = Some (t - msPerDay - getDay ?z (t - msPerDay) * msPerDay)"
    by (rule Suc.hyps(1)) (simp add: g')
  then show ?case
    unfolding g' by (subst firstSundayLoop_step) (simp add: g step algebra_simps)
qed

lemma dayCount_le:
  assumes "i < dayCount c e"
  shows "c + int i * msPerDay \<le> e"
proof -
  have "int i \<le> (e - c) div msPerDay"
    using assms by (simp add: dayCount_def daysBetween_def)
  then have "int i * msPerDay \<le> ((e - c) div msPerDay) * msPerDay"
    by (simp add: msPerDay_def)
  also have "\<dots> \<le> e - c"
    using div_bounds(1) [of msPerDay "e - c"] by (simp add: msPerDay_def mult.commute)
  finally show ?thesis by simp
qed

lemma dayCount_gt: "e < c + int (dayCount c e) * msPerDay"
proof -
  have b: "e - c - (msPerDay - 1) \<le> msPerDay * ((e - c) div msPerDay)"
    using div_bounds(2) [of msPerDay "e - c"] by (simp add: msPerDay_def)
  show ?thesis
  proof (cases "0 \<le> (e - c) div msPerDay + 1")
    case True
    then show ?thesis using b by (simp add: dayCount_def daysBetween_def algebra_simps)
  next
    case False
    then have "(e - c) div msPerDay < 0" by simp
    then have "e - c < 0" by (simp add: msPerDay_def pos_imp_zdiv_neg_iff)
    then show ?thesis using False by (simp add: dayCount_def daysBetween_def)
  qed
qed

lemma datesLoop_fixed:
  "datesLoop (fixedZone off) c e acc = Some (acc @ days c (dayCount c e))"
proof -
  let ?z = "fixedZone off"
  let ?n = "dayCount c e"
  have "datesLoop ?z c e acc = datesLoop ?z (c + int ?n * msPerDay) e (acc @ days c ?n)"
    by (rule datesLoop_days)
      (use dayCount_le in \<open>simp_all add: LocalTime_fixed UTC_fixed algebra_simps\<close>)
  also have "\<dots> = Some (acc @ days c ?n)"
    using dayCount_gt [of e c] by (subst datesLoop_step) simp
  finally show ?thesis .
qed

lemma getWeekNumber_days:
  "getWeekNumber (start - g * msPerDay) (start + i * msPerDay) = (i + g) div 7"
proof -
  have "(start + i * msPerDay - (start - g * msPerDay)) = (i + g) * 86400000"
    by (simp add: msPerDay_def algebra_simps)
  then show ?thesis by (simp add: getWeekNumber_def)
qed

lemma visibleDates_days:
  "visibleDates (days start (dayCount start end)) start end = days start (dayCount start end)"
  unfolding visibleDates_def days_def
  by (rule filter_True) (use dayCount_le in \<open>auto simp add: msPerDay_def\<close>)

lemma dayCells_fixed:
  "dayCells (fixedZone off) start end =
     Some (map (\<lambda>i. (start + int i * msPerDay,
                      (int i + getDay (fixedZone off) start) div 7,
                      (int i + getDay (fixedZone off) start) mod 7))
             [0..<dayCount start end])"
  by (simp add: dayCells_def firstSunday_def firstSundayLoop_fixed allDatesInRange_def
      datesLoop_fixed visibleDates_days cell_def getWeekNumber_days getDay_fixed_shift
      add.commute)
    (simp add: days_def cell_def getWeekNumber_days getDay_fixed_shift add.commute)

lemma week_row_inj:
  fixes i j :: int
  assumes "(i + g) div 7 = (j + g) div 7" "(i + g) mod 7 = (j + g) mod 7"
  shows "i = j"
proof -
  have "i + g = 7 * ((i + g) div 7) + (i + g) mod 7" by simp
  also have "\<dots> = 7 * ((j + g) div 7) + (j + g) mod 7" using assms by simp
  also have "\<dots> = j + g" by simp
  finally show ?thesis by simp
qed

lemma monthStart_leap: "monthStart m 1 = monthStart m 0 + (if m = 0 \<or> m = 1 then 0 else 1)"
  by (simp add: monthStart_def)

lemma LeapYear_next: "LeapYear y \<Longrightarrow> \<not> LeapYear (y + 1)"
proof -
  assume "LeapYear y"
  then have "y mod 4 = 0" by (simp add: LeapYear_def split: if_splits)
  then have "(y + 1) mod 4 = 1" by presburger
  then show ?thesis by (simp add: LeapYear_def)
qed

lemma MakeDay_next_year:
  "\<exists>N. (N = 365 \<or> N = 366)
     \<and> MakeDay (YearFromTime t + 1) (MonthFromTime t) (DateFromTime t) = Day t + N"
proof -
  let ?y = "YearFromTime t" and ?m = "MonthFromTime t"
  have m: "?m div 12 = 0" "?m mod 12 = ?m"
    using MonthFromTime_range [of t] by simp_all
  have e: "MakeDay (?y + 1) ?m (DateFromTime t) =
      Day t + (DaysInYear ?y + monthStart ?m (if LeapYear (?y + 1) then 1 else 0)
                - monthStart ?m (if LeapYear ?y then 1 else 0))"
    by (simp add: MakeDay_def Let_def m DateFromTime_def DayWithinYear_def InLeapYear_def
        DayFromYear_Suc)
  show ?thesis
  proof (cases "LeapYear ?y")
    case True
    then have "\<not> LeapYear (?y + 1)" by (rule LeapYear_next)
    then show ?thesis unfolding e using True by (simp add: DaysInYear_def monthStart_leap)
  next
    case False
    then show ?thesis unfolding e by (simp add: DaysInYear_def monthStart_leap)
  qed
qed

lemma endDate_fixed:
  "\<exists>N. (N = 365 \<or> N = 366) \<and> endDate (fixedZone off) t = t + (N - 1) * msPerDay"
proof -
  let ?z = "fixedZone off"
  obtain N where N: "N = 365 \<or> N = 366"
    "MakeDay (YearFromTime (t + off) + 1) (MonthFromTime (t + off)) (DateFromTime (t + off))
       = Day (t + off) + N"
    using MakeDay_next_year [of "t + off"] by blast
  have e: "setFullYear ?z t (getFullYear ?z t + 1) = t + N * msPerDay"
    by (simp add: setFullYear_def getFullYear_def Let_def LocalTime_fixed UTC_fixed N(2)
        MakeDate_Day)
  have "endDate ?z t = t + N * msPerDay + (- 1) * msPerDay"
    unfolding endDate_def Let_def e
    using setDate_shift [of ?z "t + N * msPerDay" "- 1"]
    by (simp add: LocalTime_fixed UTC_fixed)
  then show ?thesis using N(1) by (auto simp add: algebra_simps)
qed

lemma dayCount_whole: "0 \<le> n \<Longrightarrow> dayCount c (c + n * msPerDay) = nat (n + 1)"
  by (simp add: dayCount_def daysBetween_def msPerDay_def)


lemma UTC_newYork:
  "UTC newYork lt =
     (if 1710039600000 \<le> lt \<and> lt < 1730599200000 then lt + 14400000 else lt + 18000000)"
  by (simp add: UTC_def newYork_def msPerHour_def)

lemma LocalTime_newYork:
  "LocalTime newYork t =
     (if 1710054000000 \<le> t \<and> t < 1730613600000 then t - 14400000 else t - 18000000)"
  by (simp add: LocalTime_def newYork_def msPerHour_def)

lemma newYork_dates:
  "newDate newYork 2024 0 1 0 0 = 1704085200000"
  "newDate newYork 2023 11 31 0 0 = 1703998800000"
  "newDate newYork 2024 2 10 0 0 = 1710046800000"
  "newDate newYork 2024 2 17 0 0 = 1710648000000"
  "newDate newYork 2024 2 5 2 30 = 1709623800000"
  by (simp_all add: newDate_def MakeDate_def MakeDay_def MakeTime_def DayFromYear_def
      monthStart_def LeapYear_def msPerDay_def msPerHour_def msPerMinute_def UTC_newYork)

lemma endDate_newYork:
  "endDate newYork 1704085200000 = 1735621200000"
  "endDate newYork 1709623800000 = 1741073400000"
  by code_simp+

lemma getDay_newYork_2024_01_01: "getDay newYork 1704085200000 = 1"
  by (simp add: getDay_def WeekDay_def Day_def LocalTime_newYork msPerDay_def)

lemma firstSunday_newYork: "firstSunday newYork 1704085200000 = Some 1703998800000"
  unfolding firstSunday_def
  by (simp add: firstSundayLoop_step getDay_def WeekDay_def Day_def LocalTime_newYork UTC_newYork msPerDay_def)

lemma allDates_newYork_2024:
  "allDatesInRange newYork 1704085200000 1735621200000 =
     Some (days 1704085200000 69 @ [1710046800000] @ days 1710129600000 237
           @ [1730606400000] @ days 1730696400000 58)"
proof -
  let ?e = "1735621200000 :: int"
  have a: "datesLoop newYork 1704085200000 ?e [] =
           datesLoop newYork (1704085200000 + int 69 * msPerDay) ?e ([] @ days 1704085200000 69)"
    by (rule datesLoop_days) (auto simp add: UTC_newYork LocalTime_newYork msPerDay_def)
  have t1: "datesLoop newYork 1710046800000 ?e acc =
            datesLoop newYork 1710129600000 ?e (acc @ [1710046800000])" for acc
    by (subst datesLoop_step) (simp add: UTC_newYork LocalTime_newYork msPerDay_def)
  have b: "datesLoop newYork 1710129600000 ?e acc =
           datesLoop newYork (1710129600000 + int 237 * msPerDay) ?e
             (acc @ days 1710129600000 237)" for acc
    by (rule datesLoop_days) (auto simp add: UTC_newYork LocalTime_newYork msPerDay_def)
  have t2: "datesLoop newYork 1730606400000 ?e acc =
            datesLoop newYork 1730696400000 ?e (acc @ [1730606400000])" for acc
    by (subst datesLoop_step) (simp add: UTC_newYork LocalTime_newYork msPerDay_def)
  have c: "datesLoop newYork 1730696400000 ?e acc =
           datesLoop newYork (1730696400000 + int 58 * msPerDay) ?e
             (acc @ days 1730696400000 58)" for acc
    by (rule datesLoop_days) (auto simp add: UTC_newYork LocalTime_newYork msPerDay_def)
  have stop: "datesLoop newYork 1735707600000 ?e acc = Some acc" for acc
    by (subst datesLoop_step) simp
  have n1: "1704085200000 + int 69 * msPerDay = 1710046800000"
    and n2: "1710129600000 + int 237 * msPerDay = 1730606400000"
    and n3: "1730696400000 + int 58 * msPerDay = 1735707600000"
    by (simp_all add: msPerDay_def)
  show ?thesis
    unfolding allDatesInRange_def a n1 t1 b n2 t2 c n3 stop by simp
qed


lemma days_mem: "i < n \<Longrightarrow> c + int i * msPerDay \<in> set (days c n)"
  unfolding days_def set_map by (rule imageI) simp

lemma length_days: "length (days c n) = n"
  by (simp add: days_def)

lemma days_bounds:
  assumes "d \<in> set (days c n)" "lo \<le> c" "c + int n * msPerDay \<le> hi + msPerDay"
  shows "lo \<le> d \<and> d \<le> hi"
proof -
  obtain i where i: "i < n" "d = c + int i * msPerDay"
    using assms(1) by (auto simp add: days_def)
  have "int i + 1 \<le> int n" using i(1) by simp
  then have "(int i + 1) * msPerDay \<le> int n * msPerDay"
    by (simp add: msPerDay_def)
  then show ?thesis using i(2) assms(2,3) by (simp add: algebra_simps msPerDay_def)
qed

lemma cells_newYork_2024:
  "dayCells newYork 1704085200000 1735621200000 =
     Some (map (\<lambda>d. (d, cell newYork 1703998800000 d))
            (days 1704085200000 69 @ [1710046800000] @ days 1710129600000 237
              @ [1730606400000] @ days 1730696400000 58))"
proof -
  let ?s = "1704085200000 :: int" and ?e = "1735621200000 :: int"
  let ?dates = "days ?s 69 @ [1710046800000] @ days 1710129600000 237
                  @ [1730606400000] @ days 1730696400000 58"
  have "\<forall>d \<in> set ?dates. ?s \<le> d \<and> d \<le> ?e"
    using days_bounds [of _ ?s 69 ?s ?e] days_bounds [of _ 1710129600000 237 ?s ?e]
      days_bounds [of _ 1730696400000 58 ?s ?e]
    by (auto simp add: msPerDay_def)
  then have v: "visibleDates ?dates ?s ?e = ?dates"
    unfolding visibleDates_def by (intro filter_True) auto
  show ?thesis
    unfolding dayCells_def firstSunday_newYork allDates_newYork_2024 by (simp only: v option.case)
qed

text \<open>
  C3, at the input where the code departs from it. In America/New_York, for the default
  start of 2024 (January 1, local midnight; the end is December 31), the grid has 366
  visible cells, one per calendar day, but Sunday March 10 and Sunday March 17 are both
  placed at week 10, row 0: after the change to daylight-saving time a day starts 23
  hours after a multiple of 24 hours from the first Sunday, and \<open>getWeekNumber\<close> divides
  milliseconds.
\<close>

theorem C3_dst_sundays_share_a_cell:
  "\<exists>cells.
     dayCells newYork (newDate newYork 2024 0 1 0 0)
       (endDate newYork (newDate newYork 2024 0 1 0 0)) = Some cells
   \<and> length cells = 366
   \<and> (newDate newYork 2024 2 10 0 0, (10, 0)) \<in> set cells
   \<and> (newDate newYork 2024 2 17 0 0, (10, 0)) \<in> set cells
   \<and> newDate newYork 2024 2 10 0 0 \<noteq> newDate newYork 2024 2 17 0 0"
proof -
  have c1: "cell newYork 1703998800000 1710046800000 = (10, 0)"
    by (simp add: cell_def getWeekNumber_def getDay_def WeekDay_def Day_def LocalTime_newYork
        msPerDay_def)
  have c2: "cell newYork 1703998800000 1710648000000 = (10, 0)"
    by (simp add: cell_def getWeekNumber_def getDay_def WeekDay_def Day_def LocalTime_newYork
        msPerDay_def)
  have m: "1710648000000 \<in> set (days 1710129600000 237)"
    using days_mem [of 6 237 1710129600000] by (simp add: msPerDay_def)
  have "(1710648000000, cell newYork 1703998800000 1710648000000)
          \<in> (\<lambda>d. (d, cell newYork 1703998800000 d)) ` set (days 1710129600000 237)"
    using m by (rule imageI)
  then have m2: "(1710648000000, (10, 0))
          \<in> (\<lambda>d. (d, cell newYork 1703998800000 d)) ` set (days 1710129600000 237)"
    by (simp only: c2)
  show ?thesis
    unfolding newYork_dates endDate_newYork cells_newYork_2024
    using m2 by (simp add: length_days c1 image_Un)
qed

section \<open>CalendarHeatmap: the grid anchor\<close>

text \<open>
  In any zone: if the walk back ends, it ends on a day whose \<open>getDay\<close> is 0.
\<close>

lemma firstSundayLoop_Sunday:
  assumes "firstSundayLoop z d = Some s"
  shows "getDay z s = 0"
proof (rule firstSundayLoop.raw_induct [where P = "\<lambda>z d s. getDay z s = 0", OF _ assms])
  fix f :: "zone \<Rightarrow> date \<Rightarrow> date option" and z d s
  assume ih: "\<And>z d s. f z d = Some s \<Longrightarrow> getDay z s = 0"
    and step: "(if getDay z d \<noteq> 0 then f z (setDate z d (getDate z d - 1)) else Some d) = Some s"
  show "getDay z s = 0"
  proof (cases "getDay z d = 0")
    case True
    then show ?thesis using step by simp
  next
    case False
    then show ?thesis using step ih by simp
  qed
qed

lemma fixed_dates:
  "newDate (fixedZone off) 2024 0 1 0 0 = 1704067200000 - off"
  "newDate (fixedZone off) 2023 11 31 0 0 = 1703980800000 - off"
  by (simp_all add: newDate_def MakeDate_def MakeDay_def MakeTime_def DayFromYear_def
      monthStart_def LeapYear_def msPerDay_def msPerHour_def msPerMinute_def UTC_fixed)

lemma getDay_fixed_2024_01_01: "getDay (fixedZone off) (1704067200000 - off) = 1"
  by (simp add: getDay_def WeekDay_def Day_def LocalTime_fixed msPerDay_def)

text \<open>
  C6. The anchor is found by stepping back a day at a time until \<open>getDay\<close> is 0, so
  in any zone, if the walk ends, the anchor is a Sunday. In a zone with a constant
  offset, the walk from any start ends \<open>getDay\<close> days before the start: a Sunday, at
  most six days back. For the range from Monday 2024-01-01 (local midnight) to the same
  day, in such a zone and in America/New_York: the day is a Monday (row 1), the anchor
  is 2023-12-31, and the one visible cell is at week 0, row 1.
\<close>

theorem C6_grid_anchor:
  "(firstSunday z start = Some s \<longrightarrow> getDay z s = 0)
   \<and> firstSunday (fixedZone off) start = Some (start - getDay (fixedZone off) start * msPerDay)
   \<and> getDay (fixedZone off) (start - getDay (fixedZone off) start * msPerDay) = 0
   \<and> 0 \<le> getDay (fixedZone off) start \<and> getDay (fixedZone off) start \<le> 6
   \<and> getDay (fixedZone off) (newDate (fixedZone off) 2024 0 1 0 0) = 1
   \<and> firstSunday (fixedZone off) (newDate (fixedZone off) 2024 0 1 0 0)
       = Some (newDate (fixedZone off) 2023 11 31 0 0)
   \<and> dayCells (fixedZone off) (newDate (fixedZone off) 2024 0 1 0 0)
         (newDate (fixedZone off) 2024 0 1 0 0)
       = Some [(newDate (fixedZone off) 2024 0 1 0 0, (0, 1))]
   \<and> getDay newYork (newDate newYork 2024 0 1 0 0) = 1
   \<and> firstSunday newYork (newDate newYork 2024 0 1 0 0)
       = Some (newDate newYork 2023 11 31 0 0)
   \<and> dayCells newYork (newDate newYork 2024 0 1 0 0) (newDate newYork 2024 0 1 0 0)
       = Some [(newDate newYork 2024 0 1 0 0, (0, 1))]"
proof -
  let ?z = "fixedZone off"
  have a: "firstSunday ?z start = Some (start - getDay ?z start * msPerDay)" for start
    by (simp add: firstSunday_def firstSundayLoop_fixed)
  have b: "getDay ?z (start - getDay ?z start * msPerDay) = 0"
    using getDay_fixed_shift [of off start "- getDay ?z start"] by simp
  have c: "0 \<le> getDay ?z start \<and> getDay ?z start \<le> 6"
    using getDay_range [of ?z start] by simp
  have d: "firstSunday ?z (1704067200000 - off) = Some (1703980800000 - off)"
    unfolding a getDay_fixed_2024_01_01 by (simp add: msPerDay_def)
  have n: "dayCount (1704067200000 - off) (1704067200000 - off) = 1"
    by (simp add: dayCount_def daysBetween_def)
  have e: "dayCells ?z (1704067200000 - off) (1704067200000 - off)
             = Some [(1704067200000 - off, (0, 1))]"
    unfolding dayCells_fixed n getDay_fixed_2024_01_01 by simp
  have f: "allDatesInRange newYork 1704085200000 1704085200000 = Some [1704085200000]"
    unfolding allDatesInRange_def
    by (subst datesLoop_step, simp add: LocalTime_newYork UTC_newYork msPerDay_def)
       (subst datesLoop_step, simp)
  have g: "dayCells newYork 1704085200000 1704085200000 = Some [(1704085200000, (0, 1))]"
    unfolding dayCells_def firstSunday_newYork f
    by (simp add: visibleDates_def cell_def getWeekNumber_def getDay_newYork_2024_01_01)
  have s: "firstSunday z start = Some s \<longrightarrow> getDay z s = 0"
    unfolding firstSunday_def using firstSundayLoop_Sunday [of z start s] by blast
  show ?thesis
    unfolding fixed_dates newYork_dates
    using s a [of start] b c d e g
    by (simp add: getDay_fixed_2024_01_01 getDay_newYork_2024_01_01 firstSunday_newYork)
qed

text \<open>
  C6 in America/New_York at Monday 2024-01-01: the walk ends at 2023-12-31, a Sunday.
\<close>

theorem C6_witness:
  "firstSunday newYork (newDate newYork 2024 0 1 0 0) = Some (newDate newYork 2023 11 31 0 0)
   \<and> getDay newYork (newDate newYork 2023 11 31 0 0) = 0"
  using C6_grid_anchor [where z = newYork and start = "newDate newYork 2024 0 1 0 0"
      and s = "newDate newYork 2023 11 31 0 0" and off = 0]
  by simp


section \<open>CalendarHeatmap: the grid where the offset is constant\<close>

text \<open>
  In a zone whose offset never changes, the grid of any range has one visible cell per
  calendar day from \<open>start\<close> to \<open>end\<close> (24 hours apart, \<open>daysBetween + 1\<close> of them,
  none when the end is before the start), no two cells share a week column and weekday
  row, and the rows follow the weekdays from the start's own.
\<close>

theorem grid_fixed_zone:
  "\<exists>cells.
     dayCells (fixedZone off) start end = Some cells
   \<and> map fst cells = days start (dayCount start end)
   \<and> length cells = dayCount start end
   \<and> distinct (map snd cells)
   \<and> map (snd \<circ> snd) cells
       = map (\<lambda>i. (int i + getDay (fixedZone off) start) mod 7) [0..<dayCount start end]"
proof -
  let ?g = "getDay (fixedZone off) start"
  let ?n = "dayCount start end"
  let ?f = "\<lambda>i. (start + int i * msPerDay, (int i + ?g) div 7, (int i + ?g) mod 7)"
  have inj: "inj_on (\<lambda>i. ((int i + ?g) div 7, (int i + ?g) mod 7)) {0..<?n}"
  proof (rule inj_onI)
    fix i j
    assume "((int i + ?g) div 7, (int i + ?g) mod 7) = ((int j + ?g) div 7, (int j + ?g) mod 7)"
    then have "int i = int j" using week_row_inj [of "int i" ?g "int j"] by simp
    then show "i = j" by simp
  qed
  have s: "map snd (map ?f [0..<?n]) = map (\<lambda>i. ((int i + ?g) div 7, (int i + ?g) mod 7)) [0..<?n]"
    by (simp add: comp_def)
  have d: "distinct (map snd (map ?f [0..<?n]))"
    unfolding s using inj by (simp add: distinct_map)
  have a: "map fst (map ?f [0..<?n]) = days start ?n"
    by (simp add: days_def comp_def)
  have b: "map (snd \<circ> snd) (map ?f [0..<?n]) = map (\<lambda>i. (int i + ?g) mod 7) [0..<?n]"
    by (simp add: comp_def)
  have c: "length (map ?f [0..<?n]) = ?n" by simp
  show ?thesis
    unfolding dayCells_fixed using a b c d by blast
qed

text \<open>
  In such a zone the range that the component derives from a start date (to one year
  later, minus a day) has 365 or 366 visible cells.
\<close>

theorem year_fixed_zone:
  "\<exists>cells.
     dayCells (fixedZone off) start (endDate (fixedZone off) start) = Some cells
   \<and> (length cells = 365 \<or> length cells = 366)"
proof -
  obtain N where N: "N = 365 \<or> N = 366"
    "endDate (fixedZone off) start = start + (N - 1) * msPerDay"
    using endDate_fixed [of off start] by blast
  have "dayCount start (start + (N - 1) * msPerDay) = nat N"
    using dayCount_whole [of "N - 1" start] N(1) by auto
  then show ?thesis
    unfolding N(2) dayCells_fixed using N(1) by auto
qed

section \<open>CalendarHeatmap: a year across the change to daylight-saving time\<close>

lemma newYork_dates_2025: "newDate newYork 2025 2 4 2 30 = 1741073400000"
  by (simp add: newDate_def MakeDate_def MakeDay_def MakeTime_def DayFromYear_def
      monthStart_def LeapYear_def msPerDay_def msPerHour_def msPerMinute_def UTC_newYork)

lemma firstSunday_newYork_march: "firstSunday newYork 1709623800000 = Some 1709451000000"
  unfolding firstSunday_def
  by (simp add: firstSundayLoop_step getDay_def WeekDay_def Day_def LocalTime_newYork
      UTC_newYork msPerDay_def)

lemma allDates_newYork_march:
  "allDatesInRange newYork 1709623800000 1741073400000 =
     Some (days 1709623800000 5 @ days 1710055800000 237 @ [1730532600000]
           @ days 1730622600000 121)"
proof -
  let ?e = "1741073400000 :: int"
  have a: "datesLoop newYork 1709623800000 ?e [] =
           datesLoop newYork (1709623800000 + int 5 * msPerDay) ?e ([] @ days 1709623800000 5)"
    by (rule datesLoop_days) (auto simp add: UTC_newYork LocalTime_newYork msPerDay_def)
  have b: "datesLoop newYork 1710055800000 ?e acc =
           datesLoop newYork (1710055800000 + int 237 * msPerDay) ?e
             (acc @ days 1710055800000 237)" for acc
    by (rule datesLoop_days) (auto simp add: UTC_newYork LocalTime_newYork msPerDay_def)
  have t: "datesLoop newYork 1730532600000 ?e acc =
           datesLoop newYork 1730622600000 ?e (acc @ [1730532600000])" for acc
    by (subst datesLoop_step) (simp add: UTC_newYork LocalTime_newYork msPerDay_def)
  have c: "datesLoop newYork 1730622600000 ?e acc =
           datesLoop newYork (1730622600000 + int 121 * msPerDay) ?e
             (acc @ days 1730622600000 121)" for acc
    by (rule datesLoop_days) (auto simp add: UTC_newYork LocalTime_newYork msPerDay_def)
  have stop: "datesLoop newYork 1741077000000 ?e acc = Some acc" for acc
    by (subst datesLoop_step) simp
  have n1: "1709623800000 + int 5 * msPerDay = 1710055800000"
    and n2: "1710055800000 + int 237 * msPerDay = 1730532600000"
    and n3: "1730622600000 + int 121 * msPerDay = 1741077000000"
    by (simp_all add: msPerDay_def)
  show ?thesis
    unfolding allDatesInRange_def a n1 b n2 t c n3 stop by simp
qed

lemma cells_newYork_march:
  "dayCells newYork 1709623800000 1741073400000 =
     Some (map (\<lambda>d. (d, cell newYork 1709451000000 d))
            (days 1709623800000 5 @ days 1710055800000 237 @ [1730532600000]
              @ days 1730622600000 121))"
proof -
  let ?s = "1709623800000 :: int" and ?e = "1741073400000 :: int"
  let ?dates = "days ?s 5 @ days 1710055800000 237 @ [1730532600000]
                  @ days 1730622600000 121"
  have "\<forall>d \<in> set ?dates. ?s \<le> d \<and> d \<le> ?e"
    using days_bounds [of _ ?s 5 ?s ?e] days_bounds [of _ 1710055800000 237 ?s ?e]
      days_bounds [of _ 1730622600000 121 ?s ?e]
    by (auto simp add: msPerDay_def)
  then have v: "visibleDates ?dates ?s ?e = ?dates"
    unfolding visibleDates_def by (intro filter_True) auto
  show ?thesis
    unfolding dayCells_def firstSunday_newYork_march allDates_newYork_march
    by (simp only: v option.case)
qed

text \<open>
  C10, at the input where the code departs from it. In America/New_York, for the start
  2024-03-05 02:30 local time, the derived end is 2025-03-04 02:30, 365 calendar days
  in all. The reading 02:30 does not exist on March 10, so \<open>setDate\<close> moves the loop's
  date to 03:30 and it stays there; on the last day the loop's date is after the end and
  the day is left out: 364 visible cells.
\<close>

theorem C10_dst_year_has_364_cells:
  "endDate newYork (newDate newYork 2024 2 5 2 30) = newDate newYork 2025 2 4 2 30
   \<and> daysBetween (newDate newYork 2024 2 5 2 30) (newDate newYork 2025 2 4 2 30) + 1 = 365
   \<and> map_option length
        (dayCells newYork (newDate newYork 2024 2 5 2 30)
           (endDate newYork (newDate newYork 2024 2 5 2 30))) = Some 364"
  unfolding newYork_dates newYork_dates_2025 endDate_newYork cells_newYork_march
  by (simp add: length_days daysBetween_def msPerDay_def)

section \<open>TimeSeriesPlot: the scales\<close>

lemma interpolateBlues_half: "interpolateBlues (1 / 2) = ''rgb(109, 174, 213)''"
  by code_simp

lemma min_fold: "fold (\<lambda>x m. if m > x then x else m) vs (v::real) = Min (set (v # vs))"
proof -
  have e: "(\<lambda>x m. if m > x then x else m) = (min :: real \<Rightarrow> real \<Rightarrow> real)"
    by (intro ext) (simp add: min_def)
  show ?thesis unfolding e by (rule Min.set_eq_fold [symmetric])
qed

lemma max_fold: "fold (\<lambda>x m. if m < x then x else m) vs (v::real) = Max (set (v # vs))"
proof -
  have e: "(\<lambda>x m. if m < x then x else m) = (max :: real \<Rightarrow> real \<Rightarrow> real)"
    by (intro ext) (simp add: max_def)
  show ?thesis unfolding e by (rule Max.set_eq_fold [symmetric])
qed

lemma extent_nonempty:
  assumes "vs \<noteq> []"
  shows "extent vs = (Num (Min (set vs)), Num (Max (set vs)))"
  using assms by (cases vs) (simp_all add: min_fold max_fold del: set_simps)

lemma xScale_domain:
  assumes "series \<noteq> []"
  shows "domain (xScale series cw) =
           (Num (Min (set (map (\<lambda>d. of_int (time d)) series))),
            Num (Max (set (map (\<lambda>d. of_int (time d)) series))))"
  using assms by (simp add: xScale_def extent_nonempty del: set_map)

lemma innerWidth_pos: "0 < innerWidth cw"
  using innerWidth_ge [of cw] by simp

lemma bimap_Num:
  "bimap (Num a, Num b) (Num r0, Num r1) (Num x) =
     (if b < a then Num (r1 * (1 - (if a - b \<noteq> 0 then (x - b) / (a - b) else 1 / 2))
                         + r0 * (if a - b \<noteq> 0 then (x - b) / (a - b) else 1 / 2))
      else Num (r0 * (1 - (if b - a \<noteq> 0 then (x - a) / (b - a) else 1 / 2))
                 + r1 * (if b - a \<noteq> 0 then (x - a) / (b - a) else 1 / 2)))"
  by (simp add: bimap_def)

text \<open>
  C8. For every non-empty series the position scale and the value scale map every
  input to a number, never to \<open>NaN\<close>, and the position scale inverts every pixel to a
  date. Where the domain has width zero (all times equal; all totals zero, the value
  domain being \<open>[0, max(total)]\<close>) the scales map every input to the middle of the
  range, and a colour scale whose minimum and maximum agree gives every value the
  colour at one half of the ramp, \<open>rgb(109, 174, 213)\<close>: \<open>normalize\<close> and the
  sequential scale test the width before dividing.
\<close>

theorem C8_degenerate_domains_stay_finite:
  assumes "series \<noteq> []"
  shows "(\<exists>p. scale_apply (xScale series cw) x = Num p)
       \<and> (\<exists>q. scale_apply (yScale series cw) v = Num q)
       \<and> (\<exists>t. time_invert (xScale series cw) px = Some t)
       \<and> ((\<forall>d \<in> set series. time d = t0) \<longrightarrow>
            scale_apply (xScale series cw) x = Num (innerWidth cw / 2))
       \<and> ((\<forall>d \<in> set series. total_chips d = 0) \<longrightarrow>
            scale_apply (yScale series cw) v = Num (innerHeight cw / 2))
       \<and> (minValue rows = maxValue rows \<longrightarrow>
            colorScale rows c = ''rgb(109, 174, 213)'')"
proof -
  let ?ts = "map (\<lambda>d. of_int (time d) :: real) series"
  have d: "domain (xScale series cw) = (Num (Min (set ?ts)), Num (Max (set ?ts)))"
    using assms by (rule xScale_domain)
  have r: "range_px (xScale series cw) = (Num 0, Num (innerWidth cw))"
    by (simp add: xScale_def)
  have 1: "\<exists>p. scale_apply (xScale series cw) x = Num p"
    unfolding scale_apply_def d r bimap_Num by simp
  have 2: "\<exists>q. scale_apply (yScale series cw) v = Num q"
    unfolding scale_apply_def yScale_def by (simp add: bimap_Num)
  have 3: "\<exists>t. time_invert (xScale series cw) px = Some t"
    unfolding time_invert_def scale_invert_def d r bimap_Num by (simp add: toDate_def)
  have 4: "scale_apply (xScale series cw) x = Num (innerWidth cw / 2)"
    if "\<forall>d \<in> set series. time d = t0"
  proof -
    have "set ?ts = {of_int t0}" using that assms by (cases series) auto
    then show ?thesis unfolding scale_apply_def d r bimap_Num by simp
  qed
  have 5: "scale_apply (yScale series cw) v = Num (innerHeight cw / 2)"
    if "\<forall>d \<in> set series. total_chips d = 0"
  proof -
    have "set (map total_chips series) = {0}" using that assms by (cases series) auto
    then have "Max (set (map total_chips series)) = 0" by simp
    then have "d3max (map total_chips series) = Some 0"
      using assms by (cases series) (simp_all add: max_fold del: set_simps set_map)
    then show ?thesis
      by (simp add: scale_apply_def yScale_def orZero_def bimap_Num)
  qed
  have 6: "colorScale rows c = ''rgb(109, 174, 213)''" if "minValue rows = maxValue rows"
    using that by (simp add: colorScale_def sequentialParameter_def interpolateBlues_half)
  show ?thesis using 1 2 3 4 5 6 by blast
qed

text \<open>
  C8 at a series of one sample whose total is zero, and at one heatmap row: both
  domains have width zero, and the results are the middles of the ranges.
\<close>

theorem C8_witness:
  "[\<lparr> time = 5, allocated = 3, total_chips = 0 \<rparr>] \<noteq> []
   \<and> scale_apply (xScale [\<lparr> time = 5, allocated = 3, total_chips = 0 \<rparr>] 1200) 7 = Num 550
   \<and> scale_apply (yScale [\<lparr> time = 5, allocated = 3, total_chips = 0 \<rparr>] 1200) 3
       = Num (595 / 2)
   \<and> time_invert (xScale [\<lparr> time = 5, allocated = 3, total_chips = 0 \<rparr>] 1200) 100 = Some 5
   \<and> minValue [\<lparr> date = ''2024-01-01'', val = 4 \<rparr>] = maxValue [\<lparr> date = ''2024-01-01'', val = 4 \<rparr>]
   \<and> colorScale [\<lparr> date = ''2024-01-01'', val = 4 \<rparr>] 4 = ''rgb(109, 174, 213)''"
  using C8_degenerate_domains_stay_finite [of "[\<lparr> time = 5, allocated = 3, total_chips = 0 \<rparr>]" 1200 7 3 100 5
      "[\<lparr> date = ''2024-01-01'', val = 4 \<rparr>]" 4]
  by (simp add: minValue_def maxValue_def orZero_def innerWidth_def innerHeight_def width_def
      height_def margin_top_def margin_left_def margin_right_def margin_bottom_def
      time_invert_def scale_invert_def xScale_def bimap_def toDate_def)

section \<open>TimeSeriesPlot: the round trip of the position scale in double precision\<close>

















lemma scale_invert64_example:
  "scale_invert64 (xScale seriesA 1200) (5640716751839691 / 17592186044416)
     = Num (1704092384628 - 1 / 4096)"
  by code_simp


text \<open>
  At the middle of the same plot nothing is lost: one half, and the two products with
  it, are exact in doubles, and \<open>invert\<close> returns 2024-01-01T12:00Z as it does in exact
  arithmetic.
\<close>

lemma time_invert64_midpoint:
  "scale_apply64 (xScale seriesA 1200) (of_int (DateUTC 2024 0 1 12 0)) = Num 550"
  "time_invert64 (xScale seriesA 1200) 550 = Some (DateUTC 2024 0 1 12 0)"
  "time_invert (xScale seriesA 1200) 550 = Some (DateUTC 2024 0 1 12 0)"
  by code_simp+


section \<open>Tooltip placement\<close>

lemmas layout_defs =
  innerWidth_def innerHeight_def width_def height_def margin_top_def margin_left_def
  margin_right_def margin_bottom_def tooltipHeight_def tooltipWidth_def padding_def

lemmas heat_defs =
  heat_tooltipWidth_def heat_tooltipHeight_def heat_padding_def heat_height_def

text \<open>
  C4, at the input where the code departs from it. The heatmap in a container 200
  wide, the pointer at (45, 140), strictly inside the container and over the cell of
  the first column's Saturday (the cells of that column span 40 to 52 across, its
  Saturday 134 to 146 down): the default corner \<open>left = 45 + 10\<close> would put the
  tooltip's right side past the container (\<open>55 + 150 + 10 > 200\<close>), so the handler
  moves the tooltip to the left of the pointer, \<open>left = 45 - 150 - 10 = -115\<close>, and
  does not look at the left edge: the box spans -115 to 35 across, outside the
  container, against the comment "Keep tooltip inside container" on these lines.
\<close>

theorem C4_narrow_container_tooltip_outside:
  "0 < (45::real) \<and> (45::real) < 200 \<and> 0 < (140::real) \<and> 140 < heat_height
   \<and> 45 + heat_padding + heat_tooltipWidth + heat_padding > (200::real)
   \<and> heat_tooltipPosition 200 45 140 = (- 115, 140)
   \<and> fst (heat_tooltipPosition 200 45 140) < 0
   \<and> fst (heat_tooltipPosition 200 45 140) + heat_tooltipWidth = 35"
  by (simp add: heat_defs heat_tooltipPosition_def Let_def)

text \<open>
  The tooltip of the time series, for every pointer inside the SVG (the handler's
  \<open>mouseX\<close> and \<open>mouseY\<close> are relative to the plot group, so the pointer is at
  \<open>(mouseX + margin.left, mouseY + margin.top)\<close> in the SVG): the corner starts at the
  pointer, moves left by exactly the tooltip width plus the padding when
  \<open>left + width + padding\<close> exceeds the inner width, and up by exactly the tooltip height
  plus the padding when \<open>top + height + padding\<close> exceeds the inner height, each on its
  own; the box lies within the SVG's \<open>[0, width] \<times> [0, height]\<close>.
\<close>

theorem tooltip_inside_svg:
  assumes "0 < mouseX + margin_left" and "mouseX + margin_left < width clientWidth"
    and "0 < mouseY + margin_top" and "mouseY + margin_top < height clientWidth"
  shows "fst (tooltipPosition clientWidth mouseX mouseY)
        = (if mouseX + margin_left + tooltipWidth + padding > innerWidth clientWidth
           then mouseX + margin_left - (tooltipWidth + padding) else mouseX + margin_left)
    \<and> snd (tooltipPosition clientWidth mouseX mouseY)
        = (if mouseY + margin_top + tooltipHeight + padding > innerHeight clientWidth
           then mouseY + margin_top - (tooltipHeight + padding) else mouseY + margin_top)
    \<and> 0 \<le> fst (tooltipPosition clientWidth mouseX mouseY)
    \<and> fst (tooltipPosition clientWidth mouseX mouseY) + tooltipWidth \<le> width clientWidth
    \<and> 0 \<le> snd (tooltipPosition clientWidth mouseX mouseY)
    \<and> snd (tooltipPosition clientWidth mouseX mouseY) + tooltipHeight \<le> height clientWidth"
proof (intro conjI)
  have w: "1100 \<le> innerWidth clientWidth" by (rule innerWidth_ge)
  have h: "595 \<le> innerHeight clientWidth"
    by (simp add: layout_defs max_def)
  have wh: "width clientWidth = innerWidth clientWidth + 100"
    "height clientWidth = innerHeight clientWidth + 80"
    by (simp_all add: innerWidth_def innerHeight_def margin_top_def margin_left_def
        margin_right_def margin_bottom_def)
  show "fst (tooltipPosition clientWidth mouseX mouseY)
        = (if mouseX + margin_left + tooltipWidth + padding > innerWidth clientWidth
           then mouseX + margin_left - (tooltipWidth + padding) else mouseX + margin_left)"
    by (simp add: tooltipPosition_def Let_def)
  show "snd (tooltipPosition clientWidth mouseX mouseY)
        = (if mouseY + margin_top + tooltipHeight + padding > innerHeight clientWidth
           then mouseY + margin_top - (tooltipHeight + padding) else mouseY + margin_top)"
    by (simp add: tooltipPosition_def Let_def)
  show "0 \<le> fst (tooltipPosition clientWidth mouseX mouseY)"
    using assms w
    by (simp add: tooltipPosition_def Let_def margin_left_def tooltipWidth_def padding_def)
  show "fst (tooltipPosition clientWidth mouseX mouseY) + tooltipWidth \<le> width clientWidth"
    using assms w unfolding wh
    by (simp add: tooltipPosition_def Let_def margin_left_def tooltipWidth_def padding_def)
  show "0 \<le> snd (tooltipPosition clientWidth mouseX mouseY)"
    using assms h
    by (simp add: tooltipPosition_def Let_def margin_top_def tooltipHeight_def padding_def)
  show "snd (tooltipPosition clientWidth mouseX mouseY) + tooltipHeight \<le> height clientWidth"
    using assms h unfolding wh
    by (simp add: tooltipPosition_def Let_def margin_top_def tooltipHeight_def padding_def)
qed

text \<open>
  At a pointer near the right and bottom edges of the plot both corrections apply; at a
  pointer in the left margin of the SVG neither does.
\<close>

theorem tooltip_inside_svg_witness:
  "0 < 1000 + margin_left \<and> 1000 + margin_left < width 1200
   \<and> 0 < 500 + margin_top \<and> 500 + margin_top < height 1200
   \<and> tooltipPosition 1200 1000 500 = (900, 450)
   \<and> 0 \<le> fst (tooltipPosition 1200 1000 500)
   \<and> fst (tooltipPosition 1200 1000 500) + tooltipWidth \<le> width 1200
   \<and> 0 \<le> snd (tooltipPosition 1200 1000 500)
   \<and> snd (tooltipPosition 1200 1000 500) + tooltipHeight \<le> height 1200
   \<and> tooltipPosition 1200 (- 50) (- 30) = (10, 10)"
  using tooltip_inside_svg [of 1000 1200 500]
  by (simp add: layout_defs tooltipPosition_def Let_def)

text \<open>
  The tooltip of the heatmap, for every pointer strictly inside the container: the
  corner starts one padding to the right of the pointer, at the pointer's height; it
  moves to \<open>mouseX - width - padding\<close>, left of the pointer, when
  \<open>left + width + padding\<close> exceeds the container's width, and up by the tooltip height
  plus the padding when \<open>top + height + padding\<close> exceeds the height. The box never
  passes the right, top or bottom edge; it passes the left edge exactly when it is
  moved left while the pointer is less than the tooltip width plus the padding from
  the left edge.
\<close>

theorem heat_tooltip_inside_iff:
  assumes "0 < hx" and "hx < containerWidth" and "0 < hy" and "hy < heat_height"
  shows "fst (heat_tooltipPosition containerWidth hx hy)
        = (if hx + heat_padding + heat_tooltipWidth + heat_padding > containerWidth
           then hx - heat_tooltipWidth - heat_padding else hx + heat_padding)
    \<and> snd (heat_tooltipPosition containerWidth hx hy)
        = (if hy + heat_tooltipHeight + heat_padding > heat_height
           then hy - (heat_tooltipHeight + heat_padding) else hy)
    \<and> fst (heat_tooltipPosition containerWidth hx hy) + heat_tooltipWidth \<le> containerWidth
    \<and> 0 \<le> snd (heat_tooltipPosition containerWidth hx hy)
    \<and> snd (heat_tooltipPosition containerWidth hx hy) + heat_tooltipHeight \<le> heat_height
    \<and> (fst (heat_tooltipPosition containerWidth hx hy) < 0 \<longleftrightarrow>
          hx + heat_padding + heat_tooltipWidth + heat_padding > containerWidth
          \<and> hx < heat_tooltipWidth + heat_padding)"
proof (intro conjI)
  show "fst (heat_tooltipPosition containerWidth hx hy)
        = (if hx + heat_padding + heat_tooltipWidth + heat_padding > containerWidth
           then hx - heat_tooltipWidth - heat_padding else hx + heat_padding)"
    by (simp add: heat_tooltipPosition_def Let_def)
  show "snd (heat_tooltipPosition containerWidth hx hy)
        = (if hy + heat_tooltipHeight + heat_padding > heat_height
           then hy - (heat_tooltipHeight + heat_padding) else hy)"
    by (simp add: heat_tooltipPosition_def Let_def)
  show "fst (heat_tooltipPosition containerWidth hx hy) + heat_tooltipWidth \<le> containerWidth"
    using assms by (simp add: heat_tooltipPosition_def Let_def heat_defs)
  show "0 \<le> snd (heat_tooltipPosition containerWidth hx hy)"
    using assms by (simp add: heat_tooltipPosition_def Let_def heat_defs)
  show "snd (heat_tooltipPosition containerWidth hx hy) + heat_tooltipHeight \<le> heat_height"
    using assms by (simp add: heat_tooltipPosition_def Let_def heat_defs)
  show "fst (heat_tooltipPosition containerWidth hx hy) < 0 \<longleftrightarrow>
          hx + heat_padding + heat_tooltipWidth + heat_padding > containerWidth
          \<and> hx < heat_tooltipWidth + heat_padding"
    using assms by (auto simp add: heat_tooltipPosition_def Let_def heat_defs)
qed

text \<open>
  In a container 400 wide, at the pointer (300, 200), both corrections apply and the
  box is inside.
\<close>

theorem heat_tooltip_inside_iff_witness:
  "0 < (300::real) \<and> (300::real) < 400 \<and> 0 < (200::real) \<and> 200 < heat_height
   \<and> heat_tooltipPosition 400 300 200 = (140, 130)
   \<and> fst (heat_tooltipPosition 400 300 200) + heat_tooltipWidth \<le> 400
   \<and> 0 \<le> snd (heat_tooltipPosition 400 300 200)
   \<and> snd (heat_tooltipPosition 400 300 200) + heat_tooltipHeight \<le> heat_height
   \<and> 0 \<le> fst (heat_tooltipPosition 400 300 200)"
  using heat_tooltip_inside_iff [of 300 400 200]
  by (simp add: heat_defs heat_tooltipPosition_def Let_def)

section \<open>TimeSeriesPlot: fetching and rendering\<close>

lemma showNat_500: "showNat 500 = ''500''"
  by code_simp

lemma showNat_nonempty: "showNat n \<noteq> []"
  by (subst showNat.simps) simp

text \<open>
  C7. When a response with a status outside 200..299 arrives for a fetch that is still
  wanted, whatever the state before (a series of an earlier fetch included), the
  component renders the error view with the message \<open>HTTP error! status: \<close> followed by
  the status in decimal, and \<open>drawPlot\<close> draws nothing.
\<close>

theorem C7_http_error_replaces_chart:
  assumes "\<not> ok status"
  shows "render (fetchData JSON_parse True (Response status rawText) s)
           = ErrorView (''HTTP error! status: '' @ showNat status)
       \<and> drawPlot (fetchData JSON_parse True (Response status rawText) s) clientWidth = None"
  using assms
  by (simp add: fetchData_def tryFetch_def render_def drawPlot_def)

text \<open>
  C7 at status 500, in a state that shows the chart of scenario A's series: the view
  becomes the error view, and the message ends in 500.
\<close>

theorem C7_witness:
  "\<not> ok 500
   \<and> render (fetchData (\<lambda>text. None) True (Response 500 ''Internal Server Error'')
        \<lparr> data = Some seriesA, loading = False, error = None \<rparr>)
       = ErrorView ''HTTP error! status: 500''
   \<and> drawPlot (fetchData (\<lambda>text. None) True (Response 500 ''Internal Server Error'')
        \<lparr> data = Some seriesA, loading = False, error = None \<rparr>) 1200 = None
   \<and> render \<lparr> data = Some seriesA, loading = False, error = None \<rparr> = Chart"
  using C7_http_error_replaces_chart [of 500 "\<lambda>text. None" "''Internal Server Error''"
      "\<lparr> data = Some seriesA, loading = False, error = None \<rparr>" 1200]
  by (simp add: ok_def showNat_500 render_def)

text \<open>
  C2, at the input where the code departs from it. A response 200 with the body \<open>[]\<close>
  sets \<open>data\<close> to the empty array, which is truthy: the component renders the chart,
  not "No data available", and \<open>drawPlot\<close> builds both scales, the position scale over
  the domain \<open>[NaN, NaN]\<close>. Nothing throws while drawing; the handler of the line, were
  it called, would throw on \<open>data[0]\<close>.
\<close>

theorem C2_empty_series_draws_chart:
  "render (fetchData (\<lambda>text. if text = ''[]'' then Some (JArray []) else None) True
             (Response 200 ''[]'') initial) = Chart
   \<and> drawPlot (fetchData (\<lambda>text. if text = ''[]'' then Some (JArray []) else None) True
             (Response 200 ''[]'') initial) clientWidth
       = Some (\<lparr> domain = (NaN, NaN), range_px = (Num 0, Num (innerWidth clientWidth)) \<rparr>,
               \<lparr> domain = (Num 0, Num 0), range_px = (Num (innerHeight clientWidth), Num 0) \<rparr>)
   \<and> scale_apply (xScale [] clientWidth) x = NaN
   \<and> mousemove [] clientWidth mouseX mouseY = Inl TypeError"
  by (simp add: fetchData_def tryFetch_def ok_def initial_def render_def drawPlot_def
      xScale_def yScale_def orZero_def scale_apply_def bimap_def mousemove_def bisectLeft_def)

section \<open>CalendarHeatmap: fill and tooltip of a day\<close>

lemma dateKey_2024_01_01: "dateKey (newDate newYork 2024 0 1 0 0) = ''2024-01-01''"
  by code_simp

lemma dataMap_zero:
  "dataMap (processedData [\<lparr> row_time = ''2024-01-01T00:00:00.000Z'', row_allocated = 0 \<rparr>])
     ''2024-01-01'' = Some 0"
  by (simp add: dataMap_def processedData_def splitT_def Math_round_def)

text \<open>
  C5, at the input where the code departs from it. For a row whose allocation is 0 on
  2024-01-01, the cell of that day is filled from the ramp, unlike a day without a
  row (\<open>#eee\<close>), but its tooltip reads "No data", the same text as for a day without a
  row: \<open>dataMap.get(dateKey) || 0\<close> and \<open>value ? ... : "No data"\<close> take 0 for absent.
\<close>

theorem C5_zero_reads_no_data:
  "tooltipHtml toLocaleDateString chip
     (processedData [\<lparr> row_time = ''2024-01-01T00:00:00.000Z'', row_allocated = 0 \<rparr>])
     (newDate newYork 2024 0 1 0 0)
     = ''Date: '' @ toLocaleDateString (newDate newYork 2024 0 1 0 0) @ ''<br>''
         @ chipLabel chip @ ''s: No data''
   \<and> tooltipHtml toLocaleDateString chip (processedData []) (newDate newYork 2024 0 1 0 0)
     = ''Date: '' @ toLocaleDateString (newDate newYork 2024 0 1 0 0) @ ''<br>''
         @ chipLabel chip @ ''s: No data''
   \<and> fill (processedData [\<lparr> row_time = ''2024-01-01T00:00:00.000Z'', row_allocated = 0 \<rparr>])
       (newDate newYork 2024 0 1 0 0) = ''rgb(109, 174, 213)''
   \<and> fill (processedData []) (newDate newYork 2024 0 1 0 0) = ''#eee''"
proof -
  have m: "minValue (processedData [\<lparr> row_time = ''2024-01-01T00:00:00.000Z'', row_allocated = 0 \<rparr>]) = 0"
      "maxValue (processedData [\<lparr> row_time = ''2024-01-01T00:00:00.000Z'', row_allocated = 0 \<rparr>]) = 0"
    by (simp_all add: minValue_def maxValue_def processedData_def orZero_def Math_round_def)
  have e: "dataMap (processedData []) k = None" for k
    by (simp add: dataMap_def processedData_def)
  show ?thesis
    unfolding tooltipHtml_def fill_def dateKey_2024_01_01 dataMap_zero e Let_def
    by (simp add: colorScale_def m sequentialParameter_def interpolateBlues_half)
qed

text \<open>
  The fill tells the two apart: a cell is filled \<open>#eee\<close> exactly when its day has no
  row, since every colour of the ramp is printed as \<open>rgb(...)\<close>.
\<close>

lemma formatRgb_not_neutral: "formatRgb r g b \<noteq> ''#eee''"
  by (simp add: formatRgb_def)

theorem fill_neutral_iff: "fill rows d = ''#eee'' \<longleftrightarrow> dataMap rows (dateKey d) = None"
  by (simp add: fill_def colorScale_def interpolateBlues_def formatRgb_not_neutral
      split: option.split)

section \<open>TimeSeriesPlot: the pointer lookup on an ordered series\<close>

lemma bisectLeft_first:
  assumes "sorted (map f a)"
  shows "bisectLeft f a (Some x) \<le> length a
       \<and> (\<forall>i<bisectLeft f a (Some x). f (a ! i) < x)
       \<and> (\<forall>i. bisectLeft f a (Some x) \<le> i \<and> i < length a \<longrightarrow> x \<le> f (a ! i))"
proof (cases "a = []")
  case True
  then show ?thesis by (simp add: bisectLeft_def)
next
  case False
  then have e: "bisectLeft f a (Some x) = bisectLoop f a x 0 (length a)"
    by (simp add: bisectLeft_def)
  show ?thesis
    unfolding e using bisectLoop_post [of f a 0 "length a" x] assms by simp
qed


lemma time_invert_in_domain:
  assumes "series \<noteq> []" "0 \<le> mouseX" "mouseX \<le> innerWidth cw"
  shows "\<exists>t. time_invert (xScale series cw) mouseX = Some t
           \<and> Min (set (map time series)) \<le> t \<and> t \<le> Max (set (map time series))"
proof -
  let ?ts = "map (\<lambda>d. of_int (time d) :: real) series"
  let ?lo = "Min (set (map time series))" and ?hi = "Max (set (map time series))"
  let ?w = "innerWidth cw"
  have ne: "set (map time series) \<noteq> {}" using assms(1) by simp
  have img: "set ?ts = of_int ` set (map time series)" by (simp add: image_image)
  have lo: "Min (set ?ts) = of_int ?lo"
    unfolding img using ne by (intro mono_Min_commute [symmetric]) (auto simp add: mono_def)
  have hi: "Max (set ?ts) = of_int ?hi"
    unfolding img using ne by (intro mono_Max_commute [symmetric]) (auto simp add: mono_def)
  have le: "?lo \<le> ?hi" using ne by (simp add: Min_le_iff)
  have d: "domain (xScale series cw) = (Num (of_int ?lo), Num (of_int ?hi))"
    using xScale_domain [OF assms(1), of cw] by (simp only: lo hi)
  have r: "range_px (xScale series cw) = (Num 0, Num ?w)"
    by (simp add: xScale_def)
  have w: "0 < ?w" by (rule innerWidth_pos)
  define v where "v = mouseX / ?w"
  have v: "0 \<le> v" "v \<le> 1" using assms(2,3) w by (simp_all add: v_def)
  define x where "x = of_int ?lo * (1 - v) + of_int ?hi * v"
  have inv: "scale_invert (xScale series cw) mouseX = Num x"
    unfolding scale_invert_def d r bimap_Num x_def v_def using w le by simp
  have "x = of_int ?lo + (of_int ?hi - of_int ?lo) * v" by (simp add: x_def algebra_simps)
  moreover have "0 \<le> (of_int ?hi - of_int ?lo :: real) * v" using le v(1) by simp
  moreover have "(of_int ?hi - of_int ?lo :: real) * v \<le> (of_int ?hi - of_int ?lo) * 1"
    using le v(2) by (intro mult_left_mono) simp_all
  ultimately have x: "of_int ?lo \<le> x" "x \<le> of_int ?hi" by simp_all
  have "?lo \<le> (if x < 0 then \<lceil>x\<rceil> else \<lfloor>x\<rfloor>)"
    using x(1) by (simp add: le_floor_iff) (meson ceiling_mono ceiling_of_int order_trans le_of_int_ceiling of_int_le_iff)
  moreover have "(if x < 0 then \<lceil>x\<rceil> else \<lfloor>x\<rfloor>) \<le> ?hi"
    using x(2) by (simp add: ceiling_le_iff floor_le_iff)
  ultimately show ?thesis
    by (simp add: time_invert_def inv toDate_def)
qed


text \<open>
  On a non-empty series ordered by time, for every pointer position within the plot's
  width, with the scale's arithmetic exact: the inverted date lies in the domain, the
  handler does not throw, and the sample it shows is the first one whose time is at or
  after the inverted date.
\<close>

theorem pointer_lookup_sorted:
  assumes "series \<noteq> []" "sorted (map time series)"
    and "0 \<le> mouseX" "mouseX \<le> innerWidth cw"
  shows "\<exists>t i. time_invert (xScale series cw) mouseX = Some t
           \<and> i < length series
           \<and> mousemove series cw mouseX mouseY
               = Inr (series ! i, tooltipPosition cw mouseX mouseY)
           \<and> t \<le> time (series ! i)
           \<and> (\<forall>j<i. time (series ! j) < t)"
proof -
  obtain t where t: "time_invert (xScale series cw) mouseX = Some t"
    "t \<le> Max (set (map time series))"
    using time_invert_in_domain [OF assms(1,3,4)] by blast
  let ?i = "bisectLeft time series (Some t)"
  have b: "?i \<le> length series" "\<forall>j<?i. time (series ! j) < t"
    "\<forall>j. ?i \<le> j \<and> j < length series \<longrightarrow> t \<le> time (series ! j)"
    using bisectLeft_first [OF assms(2), of t] by simp_all
  have "Max (set (map time series)) \<in> set (map time series)"
    using assms(1) by (intro Max_in) simp_all
  then obtain k where k: "k < length series" "time (series ! k) = Max (set (map time series))"
    by (auto simp add: in_set_conv_nth)
  have lt: "?i < length series"
  proof (rule ccontr)
    assume "\<not> ?i < length series"
    then have "k < ?i" using k(1) b(1) by simp
    then have "time (series ! k) < t" using b(2) by simp
    then show False using k(2) t(2) by simp
  qed
  have m: "mousemove series cw mouseX mouseY
             = Inr (series ! ?i, tooltipPosition cw mouseX mouseY)"
    using lt by (simp add: mousemove_def t(1) Let_def)
  show ?thesis using t(1) lt m b(2,3) by blast
qed

text \<open>The same at scenario A's series and the middle of a plot 1100 wide.\<close>

theorem pointer_lookup_sorted_witness:
  "seriesA \<noteq> [] \<and> sorted (map time seriesA) \<and> (0::real) \<le> 550 \<and> 550 \<le> innerWidth 1200
   \<and> time_invert (xScale seriesA 1200) 550 = Some (DateUTC 2024 0 1 12 0)
   \<and> mousemove seriesA 1200 550 100 = Inr (seriesA ! 1, tooltipPosition 1200 550 100)"
proof -
  have a: "seriesA \<noteq> []" "sorted (map time seriesA)"
    by (simp_all add: seriesA_def DateUTC_scenarioA)
  have w: "innerWidth 1200 = 1100"
    by (simp add: innerWidth_def width_def margin_left_def margin_right_def)
  have i: "time_invert (xScale seriesA 1200) 550 = Some (DateUTC 2024 0 1 12 0)"
    using time_invert_seriesA [of 1200] by (simp add: w)
  obtain t j where tj: "time_invert (xScale seriesA 1200) 550 = Some t" "j < length seriesA"
    "mousemove seriesA 1200 550 100 = Inr (seriesA ! j, tooltipPosition 1200 550 100)"
    "t \<le> time (seriesA ! j)" "\<forall>k<j. time (seriesA ! k) < t"
    using pointer_lookup_sorted [OF a, of 550 1200 100] by (auto simp add: w)
  have t: "t = DateUTC 2024 0 1 12 0" using tj(1) i by simp
  have "j = 1"
  proof -
    have "j = 0 \<or> j = 1" using tj(2) by (auto simp add: seriesA_def)
    moreover have "j \<noteq> 0"
    proof
      assume "j = 0"
      then show False using tj(4) by (simp add: t seriesA_def DateUTC_scenarioA)
    qed
    ultimately show ?thesis by simp
  qed
  then show ?thesis using a i tj(3) by (simp add: w)
qed

end
